theory Spec2Isabelle
  imports
    Main
    "HOL-Library.Multiset"
    "HOL-Library.Char_ord"
    "HOL-Library.List_Lexorder"
    "HOL-Library.Word"
begin

section \<open>Strings\<close>

text \<open>
  JavaScript strings are modelled as \<open>string\<close>. \<open>String.prototype.toUpperCase\<close> and
  \<open>toLowerCase\<close> are the platform's: they map the letters of every script and may change
  the length of a string. They are a parameter of the model, and the properties below
  are proved for every pair of functions.
\<close>

record platform =
  toUpperCase :: "string \<Rightarrow> string"
  toLowerCase :: "string \<Rightarrow> string"

text \<open>
  On a string of ASCII characters the built-ins change the 26 letters and nothing else.
  The platform \<open>ascii\<close> does this on every string; it stands for the platform where a
  property is evaluated on a concrete ASCII input.
\<close>

definition ascii_upper_char :: "char \<Rightarrow> char" where
  "ascii_upper_char c =
     (let n = (of_char c :: nat) in if 97 \<le> n \<and> n \<le> 122 then char_of (n - 32) else c)"

definition ascii_lower_char :: "char \<Rightarrow> char" where
  "ascii_lower_char c =
     (let n = (of_char c :: nat) in if 65 \<le> n \<and> n \<le> 90 then char_of (n + 32) else c)"

definition ascii :: platform where
  "ascii = \<lparr>toUpperCase = map ascii_upper_char, toLowerCase = map ascii_lower_char\<rparr>"

text \<open>\<open>Array.prototype.join\<close> on an array of strings.\<close>

fun join :: "string \<Rightarrow> string list \<Rightarrow> string" where
  "join sep [] = []"
| "join sep [x] = x"
| "join sep (x # y # ys) = x @ sep @ join sep (y # ys)"

text \<open>\<open>String.prototype.includes\<close>: the argument occurs as a contiguous substring.\<close>

fun starts_with :: "string \<Rightarrow> string \<Rightarrow> bool" where
  "starts_with s [] = True"
| "starts_with [] (c # sub) = False"
| "starts_with (d # s) (c # sub) = (d = c \<and> starts_with s sub)"

fun str_includes :: "string \<Rightarrow> string \<Rightarrow> bool" where
  "str_includes [] sub = (sub = [])"
| "str_includes (c # s) sub = (starts_with (c # s) sub \<or> str_includes s sub)"

text \<open>\<open>s.trim() !== ""\<close>: some character of \<open>s\<close> is not white space.\<close>

definition is_space :: "char \<Rightarrow> bool" where
  "is_space c = ((of_char c :: nat) \<in> {9, 10, 11, 12, 13, 32, 160})"

definition trim_nonempty :: "string \<Rightarrow> bool" where
  "trim_nonempty s = list_ex (\<lambda>c. \<not> is_space c) s"

section \<open>Conversation memory (agent.js)\<close>

datatype role = User | Assistant

definition MAX_HISTORY_PAIRS :: nat where
  "MAX_HISTORY_PAIRS = 20"

text \<open>\<open>xs.slice(-n)\<close> for \<open>n > 0\<close>: the last \<open>n\<close> elements, the whole array when it is shorter.\<close>

definition slice_last :: "nat \<Rightarrow> 'a list \<Rightarrow> 'a list" where
  "slice_last n xs = (if length xs \<le> n then xs else drop (length xs - n) xs)"

type_synonym turn = "role \<times> string"

text \<open>
  \<open>saveHistory\<close> builds the updated array, trims it and overwrites the stored value
  with one \<open>KV.put\<close>; the function returns the value written.
\<close>

definition saveHistory :: "turn list \<Rightarrow> string \<Rightarrow> string \<Rightarrow> turn list" where
  "saveHistory existing userMsg assistantMsg =
     (let updated = existing @ [(User, userMsg), (Assistant, assistantMsg)];
          trimmed = slice_last (MAX_HISTORY_PAIRS * 2) updated
      in trimmed)"

text \<open>
  A sequence of exchanges, each one read-modify-write on the stored history: the
  stored value after the exchanges \<open>ps\<close>, oldest first, starting from \<open>h\<close>.
\<close>

fun appends :: "turn list \<Rightarrow> (string \<times> string) list \<Rightarrow> turn list" where
  "appends h [] = h"
| "appends h ((u, a) # ps) = appends (saveHistory h u a) ps"

definition pair_turns :: "string \<times> string \<Rightarrow> turn list" where
  "pair_turns p = [(User, fst p), (Assistant, snd p)]"


section \<open>Errors and results\<close>

text \<open>
  A thrown JavaScript error is a value: \<open>Error\<close> for the errors the API layer raises
  with \<open>new Error(...)\<close>, \<open>TypeError\<close> for a method call on \<open>undefined\<close>. Both carry
  their \<open>message\<close>.
\<close>

datatype error = Error string | TypeError string

fun message :: "error \<Rightarrow> string" where
  "message (Error m) = m"
| "message (TypeError m) = m"

text \<open>The error of reading the property \<open>m\<close> of \<open>undefined\<close>.\<close>

definition type_error_reading :: "string \<Rightarrow> error" where
  "type_error_reading m =
     TypeError (''Cannot read properties of undefined (reading '' @ [CHR 0x27] @ m @ [CHR 0x27] @ '')'')"

definition dq :: char where
  "dq = CHR 0x22"

text \<open>A value interpolated into a template literal; \<open>undefined\<close> prints as its name.\<close>

definition js_str :: "string option \<Rightarrow> string" where
  "js_str v = (case v of None \<Rightarrow> ''undefined'' | Some s \<Rightarrow> s)"

text \<open>Truthiness of an optional string: present and not empty.\<close>

definition truthy :: "string option \<Rightarrow> bool" where
  "truthy v = (case v of None \<Rightarrow> False | Some s \<Rightarrow> s \<noteq> [])"

section \<open>Tracker snapshot (index.js, linear.js)\<close>

record label =
  l_id :: string
  l_name :: string

record workflow_state =
  s_id :: string
  s_name :: string
  s_type :: string

record project_ref =
  p_id :: string
  p_name :: string

record person_ref =
  a_id :: string
  a_name :: string

record member =
  m_id :: string
  m_name :: "string option"
  m_displayName :: "string option"

text \<open>An issue as \<open>fetchActiveIssues\<close> returns it.\<close>

record issue =
  i_id :: string
  i_identifier :: string
  i_title :: string
  i_description :: "string option"
  i_priority :: int
  i_priorityLabel :: string
  i_dueDate :: "string option"
  i_state :: "workflow_state option"
  i_project :: "project_ref option"
  i_assignee :: "person_ref option"
  i_labels :: "label list"
  i_url :: string

text \<open>
  The shared context \<open>ctx\<close> built by \<open>processMessage\<close>. The API key is a fixed
  credential handed unchanged to every call and is left out.
\<close>

record ctx =
  teamId :: "string option"
  teamKey :: string
  issues :: "issue list"
  states :: "workflow_state list"
  labels :: "label list"
  projects :: "project_ref list"
  members :: "member list"

section \<open>Mutations of the tracker (linear.js)\<close>

text \<open>The \<open>input\<close> object of \<open>issueUpdate\<close>: each handler sets exactly one field.\<close>

datatype update_input =
    SetStateId string
  | SetPriority "int option"
  | SetLabelIds "string list"
  | SetAssigneeId string
  | SetDueDate "string option"

text \<open>The \<open>input\<close> object of \<open>issueCreate\<close>; an unset property is \<open>None\<close>.\<close>

record create_input =
  ci_teamId :: "string option"
  ci_title :: "string option"
  ci_description :: "string option"
  ci_priority :: "int option"
  ci_dueDate :: "string option"
  ci_projectId :: "string option"
  ci_stateId :: "string option"
  ci_parentId :: "string option"

record project_input =
  pi_name :: "string option"
  pi_teamIds :: "string option list"
  pi_description :: "string option"

datatype api_call =
    IssueUpdate string update_input
  | IssueCreate create_input
  | CommentCreate string "string option"
  | ProjectCreate project_input
  | IssueLabelCreate "string option" "string option"

text \<open>What the mutations select from the tracker's reply.\<close>

record updated_issue =
  u_id :: string
  u_identifier :: string
  u_title :: string
  u_dueDate :: "string option"
  u_state_name :: string
  u_priority :: int
  u_priorityLabel :: string
  u_assignee_name :: "string option"
  u_label_names :: "string list"
  u_project_name :: "string option"

record created_issue =
  c_id :: string
  c_identifier :: string
  c_title :: string
  c_url :: string
  c_dueDate :: "string option"
  c_state_name :: string

record created_comment =
  cm_id :: string
  cm_body :: string

text \<open>
  The tracker is outside the program. It is a parameter: for each mutation, the reply
  (or the error \<open>gql\<close> throws on an HTTP failure or on reported errors) as a function of
  the mutations issued before and of the arguments. The state the handlers thread is
  the log of mutations issued so far.
\<close>

record tracker =
  issueUpdate :: "api_call list \<Rightarrow> string \<Rightarrow> update_input \<Rightarrow> error + updated_issue"
  issueCreate :: "api_call list \<Rightarrow> create_input \<Rightarrow> error + created_issue"
  commentCreate :: "api_call list \<Rightarrow> string \<Rightarrow> string option \<Rightarrow> error + created_comment"
  projectCreate :: "api_call list \<Rightarrow> project_input \<Rightarrow> error + project_ref"
  issueLabelCreate :: "api_call list \<Rightarrow> string option \<Rightarrow> string option \<Rightarrow> error + label"

type_synonym 'a io = "api_call list \<Rightarrow> (error + 'a) \<times> api_call list"

definition return_io :: "'a \<Rightarrow> 'a io" where
  "return_io x log = (Inr x, log)"

definition throw_io :: "error \<Rightarrow> 'a io" where
  "throw_io e log = (Inl e, log)"

definition bind_io :: "'a io \<Rightarrow> ('a \<Rightarrow> 'b io) \<Rightarrow> 'b io" where
  "bind_io m f log =
     (case m log of
        (Inl e, log') \<Rightarrow> (Inl e, log')
      | (Inr x, log') \<Rightarrow> f x log')"

definition updateIssue :: "tracker \<Rightarrow> string \<Rightarrow> update_input \<Rightarrow> updated_issue io" where
  "updateIssue T issueId inp log = (issueUpdate T log issueId inp, log @ [IssueUpdate issueId inp])"

definition createIssue :: "tracker \<Rightarrow> create_input \<Rightarrow> created_issue io" where
  "createIssue T inp log = (issueCreate T log inp, log @ [IssueCreate inp])"

definition createComment :: "tracker \<Rightarrow> string \<Rightarrow> string option \<Rightarrow> created_comment io" where
  "createComment T issueId body log =
     (commentCreate T log issueId body, log @ [CommentCreate issueId body])"

definition createProject ::
  "tracker \<Rightarrow> string option \<Rightarrow> string option list \<Rightarrow> string option \<Rightarrow> project_ref io" where
  "createProject T name teamIds descr log =
     (let inp = \<lparr>pi_name = name, pi_teamIds = teamIds,
                 pi_description = (if truthy descr then descr else None)\<rparr>
      in (projectCreate T log inp, log @ [ProjectCreate inp]))"

definition createLabel :: "tracker \<Rightarrow> string option \<Rightarrow> string option \<Rightarrow> label io" where
  "createLabel T team name log =
     (issueLabelCreate T log name team, log @ [IssueLabelCreate name team])"

section \<open>Tool inputs and results (tools.js)\<close>

text \<open>
  The \<open>input\<close> of a tool call is the object the model sent. The schema names the
  properties; nothing forces the model to send them, so each one is optional
  (\<open>None\<close> is \<open>undefined\<close>).
\<close>

record subtask =
  sub_title :: "string option"
  sub_description :: "string option"
  sub_priority :: "int option"
  sub_due_date :: "string option"

record tool_input =
  issue_identifier :: "string option"
  status :: "string option"
  in_priority :: "int option"
  comment :: "string option"
  label_name :: "string option"
  in_title :: "string option"
  in_description :: "string option"
  due_date :: "string option"
  project_name :: "string option"
  subtasks :: "subtask list option"
  in_name :: "string option"
  assignee_name :: "string option"

record subtask_result =
  sr_issue :: string
  sr_title :: string
  sr_due_date :: "string option"

text \<open>
  The result objects: \<open>{ error: ... }\<close> is \<open>Failure\<close>; \<open>{ success: true, ... }\<close> is
  \<open>Success\<close> with the other properties of the object, one constructor for each shape
  a handler returns.
\<close>

datatype payload =
    StatusUpdated string string string
  | PriorityUpdated string string string
  | CommentAdded string string
  | LabelAlready string
  | LabelAdded string "string list"
  | IssueCreated string string string "string option" "subtask_result list option"
  | ProjectCreated string string
  | IssueAssigned string string "string option"
  | DueDateUpdated string string string

datatype tool_result = Failure string | Success payload

section \<open>Handlers (tools.js)\<close>

definition findIssue :: "platform \<Rightarrow> string \<Rightarrow> issue list \<Rightarrow> issue option" where
  "findIssue P ident iss = (let upper = toUpperCase P ident in find (\<lambda>i. i_identifier i = upper) iss)"

text \<open>
  The first two lines of every issue handler: \<open>findIssue(input.issue_identifier,
  ctx.issues)\<close> calls \<open>toUpperCase\<close> on the property, a \<open>TypeError\<close> when it is
  \<open>undefined\<close>; no issue found is the error result.
\<close>

definition with_issue ::
  "platform \<Rightarrow> tool_input \<Rightarrow> ctx \<Rightarrow> (issue \<Rightarrow> tool_result io) \<Rightarrow> tool_result io" where
  "with_issue P inp c k =
     (case issue_identifier inp of
        None \<Rightarrow> throw_io (type_error_reading ''toUpperCase'')
      | Some ident \<Rightarrow>
          (case findIssue P ident (issues c) of
             None \<Rightarrow> return_io (Failure (''Issue '' @ ident @ '' not found in active issues.''))
           | Some issue \<Rightarrow> k issue))"

text \<open>
  \<open>xs.find((x) => x.name.toLowerCase() === wanted.toLowerCase())\<close>. The callback runs
  only when the array has an element, so an \<open>undefined\<close> name to look for is a
  \<open>TypeError\<close> on a non-empty array and "not found" on an empty one.
\<close>

definition find_by_name ::
  "platform \<Rightarrow> ('a \<Rightarrow> string) \<Rightarrow> string option \<Rightarrow> 'a list \<Rightarrow> error + 'a option" where
  "find_by_name P name_of wanted xs =
     (case wanted of
        None \<Rightarrow>
          (if xs = [] then Inr None
           else Inl (type_error_reading ''toLowerCase''))
      | Some w \<Rightarrow> Inr (find (\<lambda>x. toLowerCase P (name_of x) = toLowerCase P w) xs))"

definition handleUpdateStatus :: "platform \<Rightarrow> tracker \<Rightarrow> tool_input \<Rightarrow> ctx \<Rightarrow> tool_result io" where
  "handleUpdateStatus P T inp c =
     with_issue P inp c (\<lambda>issue.
       case find_by_name P s_name (status inp) (states c) of
         Inl e \<Rightarrow> throw_io e
       | Inr None \<Rightarrow>
           return_io (Failure (''State '' @ [dq] @ js_str (status inp) @ [dq]
             @ '' not found. Available: '' @ join '', '' (map s_name (states c))))
       | Inr (Some st) \<Rightarrow>
           bind_io (updateIssue T (i_id issue) (SetStateId (s_id st))) (\<lambda>updated.
             return_io (Success
               (StatusUpdated (u_identifier updated) (u_title updated) (u_state_name updated)))))"

definition handleUpdatePriority :: "platform \<Rightarrow> tracker \<Rightarrow> tool_input \<Rightarrow> ctx \<Rightarrow> tool_result io" where
  "handleUpdatePriority P T inp c =
     with_issue P inp c (\<lambda>issue.
       bind_io (updateIssue T (i_id issue) (SetPriority (in_priority inp))) (\<lambda>updated.
         return_io (Success
           (PriorityUpdated (u_identifier updated) (u_title updated) (u_priorityLabel updated)))))"

definition handleAddComment :: "platform \<Rightarrow> tracker \<Rightarrow> tool_input \<Rightarrow> ctx \<Rightarrow> tool_result io" where
  "handleAddComment P T inp c =
     with_issue P inp c (\<lambda>issue.
       bind_io (createComment T (i_id issue) (comment inp)) (\<lambda>cm.
         return_io (Success (CommentAdded (i_identifier issue) (take 100 (cm_body cm))))))"

text \<open>
  \<open>let label = ctx.labels.find(...); if (!label) label = await createLabel(...)\<close>
\<close>

definition find_or_create_label :: "platform \<Rightarrow> tracker \<Rightarrow> tool_input \<Rightarrow> ctx \<Rightarrow> label io" where
  "find_or_create_label P T inp c =
     (case find_by_name P l_name (label_name inp) (labels c) of
        Inl e \<Rightarrow> throw_io e
      | Inr (Some l) \<Rightarrow> return_io l
      | Inr None \<Rightarrow> createLabel T (teamId c) (label_name inp))"

definition handleAddLabel :: "platform \<Rightarrow> tracker \<Rightarrow> tool_input \<Rightarrow> ctx \<Rightarrow> tool_result io" where
  "handleAddLabel P T inp c =
     with_issue P inp c (\<lambda>issue.
       bind_io (find_or_create_label P T inp c) (\<lambda>label.
         let currentLabelIds = map l_id (i_labels issue) in
         if l_id label \<in> set currentLabelIds then
           return_io (Success (LabelAlready
             (i_identifier issue @ '' already has label '' @ [dq] @ l_name label @ [dq])))
         else
           bind_io
             (updateIssue T (i_id issue) (SetLabelIds (currentLabelIds @ [l_id label])))
             (\<lambda>updated.
                return_io (Success
                  (LabelAdded (u_identifier updated) (u_label_names updated))))))"

text \<open>The loop over \<open>input.subtasks\<close>: one \<open>issueCreate\<close> for each, in order.\<close>

fun create_subtasks ::
  "tracker \<Rightarrow> ctx \<Rightarrow> created_issue \<Rightarrow> string option \<Rightarrow> subtask list \<Rightarrow> subtask_result list
     \<Rightarrow> subtask_result list io" where
  "create_subtasks T c parentIssue projectId [] subtaskResults = return_io subtaskResults"
| "create_subtasks T c parentIssue projectId (sub # subs) subtaskResults =
     (let subInput =
        \<lparr>ci_teamId = teamId c,
         ci_title = sub_title sub,
         ci_description = (if truthy (sub_description sub) then sub_description sub else None),
         ci_priority = sub_priority sub,
         ci_dueDate = (if truthy (sub_due_date sub) then sub_due_date sub else None),
         ci_projectId = (if truthy projectId then projectId else None),
         ci_stateId = None,
         ci_parentId = Some (c_id parentIssue)\<rparr>
      in bind_io (createIssue T subInput) (\<lambda>subIssue.
           create_subtasks T c parentIssue projectId subs
             (subtaskResults @
               [\<lparr>sr_issue = c_identifier subIssue, sr_title = c_title subIssue,
                 sr_due_date = (if truthy (c_dueDate subIssue) then c_dueDate subIssue else None)\<rparr>])))"

definition handleCreateIssue :: "platform \<Rightarrow> tracker \<Rightarrow> tool_input \<Rightarrow> ctx \<Rightarrow> tool_result io" where
  "handleCreateIssue P T inp c =
     (let project =
            (case project_name inp of
               None \<Rightarrow> None
             | Some wanted \<Rightarrow>
                 if wanted = [] then None
                 else find (\<lambda>p. str_includes (toLowerCase P (p_name p)) (toLowerCase P wanted))
                        (projects c));
          projectId = map_option p_id project;
          st =
            (case status inp of
               None \<Rightarrow> None
             | Some wanted \<Rightarrow>
                 if wanted = [] then None
                 else find (\<lambda>s. toLowerCase P (s_name s) = toLowerCase P wanted) (states c));
          createInput =
            \<lparr>ci_teamId = teamId c,
             ci_title = in_title inp,
             ci_description = (if truthy (in_description inp) then in_description inp else None),
             ci_priority = in_priority inp,
             ci_dueDate = (if truthy (due_date inp) then due_date inp else None),
             ci_projectId = projectId,
             ci_stateId = map_option s_id st,
             ci_parentId = None\<rparr>
      in bind_io (createIssue T createInput) (\<lambda>parentIssue.
           let due = (if truthy (c_dueDate parentIssue) then c_dueDate parentIssue else None) in
           case subtasks inp of
             None \<Rightarrow>
               return_io (Success (IssueCreated (c_identifier parentIssue) (c_title parentIssue)
                 (c_url parentIssue) due None))
           | Some subs \<Rightarrow>
               if subs = [] then
                 return_io (Success (IssueCreated (c_identifier parentIssue) (c_title parentIssue)
                   (c_url parentIssue) due None))
               else
                 bind_io (create_subtasks T c parentIssue projectId subs []) (\<lambda>subtaskResults.
                   return_io (Success (IssueCreated (c_identifier parentIssue)
                     (c_title parentIssue) (c_url parentIssue) due (Some subtaskResults))))))"

definition handleCreateProject :: "tracker \<Rightarrow> tool_input \<Rightarrow> ctx \<Rightarrow> tool_result io" where
  "handleCreateProject T inp c =
     bind_io (createProject T (in_name inp) [teamId c] (in_description inp)) (\<lambda>project.
       return_io (Success (ProjectCreated (p_name project) (p_id project))))"

text \<open>
  \<open>m.name?.toLowerCase().includes(nameLower) || m.displayName?.toLowerCase().includes(nameLower)\<close>
\<close>

definition member_matches :: "platform \<Rightarrow> string \<Rightarrow> member \<Rightarrow> bool" where
  "member_matches P nameLower m =
     ((case m_name m of None \<Rightarrow> False | Some n \<Rightarrow> str_includes (toLowerCase P n) nameLower) \<or>
      (case m_displayName m of None \<Rightarrow> False | Some n \<Rightarrow> str_includes (toLowerCase P n) nameLower))"

definition handleAssignIssue :: "platform \<Rightarrow> tracker \<Rightarrow> tool_input \<Rightarrow> ctx \<Rightarrow> tool_result io" where
  "handleAssignIssue P T inp c =
     with_issue P inp c (\<lambda>issue.
       case assignee_name inp of
         None \<Rightarrow> throw_io (type_error_reading ''toLowerCase'')
       | Some wanted \<Rightarrow>
           (let nameLower = toLowerCase P wanted in
            case find (member_matches P nameLower) (members c) of
              None \<Rightarrow>
                return_io (Failure (''Team member '' @ [dq] @ wanted @ [dq]
                  @ '' not found. Available: ''
                  @ join '', '' (map (\<lambda>m. case m_name m of None \<Rightarrow> [] | Some n \<Rightarrow> n) (members c))))
            | Some m \<Rightarrow>
                bind_io (updateIssue T (i_id issue) (SetAssigneeId (m_id m))) (\<lambda>updated.
                  return_io (Success
                    (IssueAssigned (u_identifier updated) (u_title updated)
                      (u_assignee_name updated))))))"

definition handleUpdateDueDate :: "platform \<Rightarrow> tracker \<Rightarrow> tool_input \<Rightarrow> ctx \<Rightarrow> tool_result io" where
  "handleUpdateDueDate P T inp c =
     with_issue P inp c (\<lambda>issue.
       let dueDate =
             (case due_date inp of
                None \<Rightarrow> None
              | Some d \<Rightarrow> if d \<noteq> [] \<and> trim_nonempty d then Some d else None)
       in bind_io (updateIssue T (i_id issue) (SetDueDate dueDate)) (\<lambda>updated.
            return_io (Success
              (DueDateUpdated (u_identifier updated) (u_title updated)
                (case u_dueDate updated of
                   None \<Rightarrow> ''cleared''
                 | Some d \<Rightarrow> if d = [] then ''cleared'' else d)))))"

section \<open>Tool execution (tools.js)\<close>

text \<open>The names of \<open>TOOL_DEFINITIONS\<close>, in the order of the array.\<close>

definition tool_names :: "string list" where
  "tool_names =
     [''update_issue_status'', ''update_issue_priority'', ''add_comment'', ''add_label'',
      ''create_issue'', ''create_project'', ''assign_issue'', ''update_due_date'']"

text \<open>The \<open>switch\<close> inside the \<open>try\<close> block.\<close>

definition dispatch :: "platform \<Rightarrow> tracker \<Rightarrow> string \<Rightarrow> tool_input \<Rightarrow> ctx \<Rightarrow> tool_result io" where
  "dispatch P T toolName inp c =
     (if toolName = ''update_issue_status'' then handleUpdateStatus P T inp c
      else if toolName = ''update_issue_priority'' then handleUpdatePriority P T inp c
      else if toolName = ''add_comment'' then handleAddComment P T inp c
      else if toolName = ''add_label'' then handleAddLabel P T inp c
      else if toolName = ''create_issue'' then handleCreateIssue P T inp c
      else if toolName = ''create_project'' then handleCreateProject T inp c
      else if toolName = ''assign_issue'' then handleAssignIssue P T inp c
      else if toolName = ''update_due_date'' then handleUpdateDueDate P T inp c
      else return_io (Failure (''Unknown tool: '' @ toolName)))"

text \<open>\<open>try { switch ... } catch (err) { return { error: ... } }\<close>\<close>

definition executeTool :: "platform \<Rightarrow> tracker \<Rightarrow> string \<Rightarrow> tool_input \<Rightarrow> ctx \<Rightarrow> tool_result io" where
  "executeTool P T toolName inp c log =
     (case dispatch P T toolName inp c log of
        (Inl err, log') \<Rightarrow>
          (Inr (Failure (''Tool '' @ [dq] @ toolName @ [dq] @ '' failed: '' @ message err)), log')
      | (Inr r, log') \<Rightarrow> (Inr r, log'))"

section \<open>Notions used to state the properties of the executor\<close>

text \<open>Two strings are equal up to letter case: they have the same upper-case form.\<close>

definition eq_ignore_case :: "platform \<Rightarrow> string \<Rightarrow> string \<Rightarrow> bool" where
  "eq_ignore_case P a b = (toUpperCase P a = toUpperCase P b)"

text \<open>
  The snapshot of a later turn, after the tracker has applied an update of the issue's
  labels that appended the label \<open>l\<close>: the issue carries \<open>l\<close> after its former labels, and
  the label is in the catalogue.
\<close>

definition label_applied :: "ctx \<Rightarrow> issue \<Rightarrow> label \<Rightarrow> ctx" where
  "label_applied c issue l =
     c\<lparr>issues := map (\<lambda>i. if i_id i = i_id issue then i\<lparr>i_labels := i_labels i @ [l]\<rparr> else i)
                    (issues c),
       labels := (if l \<in> set (labels c) then labels c else labels c @ [l])\<rparr>"

text \<open>The mutations a handler issued: what it appended to the log it started from.\<close>

definition issued :: "api_call list \<Rightarrow> 'a \<times> api_call list \<Rightarrow> api_call list" where
  "issued log res = drop (length log) (snd res)"

section \<open>Agent loop (agent.js)\<close>

text \<open>
  The blocks of a model response: text, a tool call (its id, the tool name, the input),
  or anything else.
\<close>

datatype block =
    TextBlock string
  | ToolUseBlock string string tool_input
  | OtherBlock

text \<open>
  A \<open>tool_result\<close> entry. The source sends \<open>JSON.stringify(result)\<close>; the model here
  keeps the result itself.
\<close>

record tool_result_block =
  tool_use_id :: string
  tr_content :: tool_result

datatype msg_content =
    Text string
  | Blocks "block list option"
  | ToolResults "tool_result_block list"

type_synonym msg = "role \<times> msg_content"

record response =
  stop_reason :: string
  content :: "block list option"

text \<open>
  The reasoning model is outside the program: \<open>callClaude\<close> is a parameter, the
  response to the messages sent (the system prompt and the tool definitions are fixed
  during a turn), or the error thrown on an HTTP failure.
\<close>

type_synonym claude = "msg list \<Rightarrow> error + response"

definition MAX_ITERATIONS :: nat where
  "MAX_ITERATIONS = 10"

definition fallback_text :: string where
  "fallback_text =
     ''Done '' @ [CHR 0xE2, CHR 0x80, CHR 0x94] @ '' but I couldn'' @ [CHR 0x27]
       @ ''t generate a response. Something might be off.''"

text \<open>
  The \<open>for\<close> loop over \<open>response.content\<close>: every \<open>tool_use\<close> block is executed, in
  order, and its result pushed on \<open>toolResults\<close>.
\<close>

fun run_blocks ::
  "platform \<Rightarrow> tracker \<Rightarrow> ctx \<Rightarrow> block list \<Rightarrow> tool_result_block list \<Rightarrow> tool_result_block list io" where
  "run_blocks P T c [] toolResults = return_io toolResults"
| "run_blocks P T c (ToolUseBlock bid name inp # bs) toolResults =
     bind_io (executeTool P T name inp c) (\<lambda>result.
       run_blocks P T c bs (toolResults @ [\<lparr>tool_use_id = bid, tr_content = result\<rparr>]))"
| "run_blocks P T c (b # bs) toolResults = run_blocks P T c bs toolResults"

text \<open>
  The \<open>while\<close> loop, from the state \<open>(response, messages, iterations)\<close>. It returns the
  three variables as the loop leaves them. Iterating over an \<open>undefined\<close> content is a
  \<open>TypeError\<close>; an error of \<open>callClaude\<close> leaves the function.
\<close>

function tool_loop ::
  "claude \<Rightarrow> platform \<Rightarrow> tracker \<Rightarrow> ctx \<Rightarrow> response \<Rightarrow> msg list \<Rightarrow> nat \<Rightarrow> (response \<times> msg list \<times> nat) io" where
  "tool_loop C P T c resp messages iterations log =
     (if stop_reason resp = ''tool_use'' \<and> iterations < MAX_ITERATIONS then
        (case content resp of
           None \<Rightarrow> (Inl (TypeError ''response.content is not iterable''), log)
         | Some blocks \<Rightarrow>
             (case run_blocks P T c blocks [] log of
                (Inl e, log') \<Rightarrow> (Inl e, log')
              | (Inr toolResults, log') \<Rightarrow>
                  (let messages' =
                         messages @ [(Assistant, Blocks (content resp)), (User, ToolResults toolResults)]
                   in case C messages' of
                        Inl e \<Rightarrow> (Inl e, log')
                      | Inr resp' \<Rightarrow> tool_loop C P T c resp' messages' (Suc iterations) log')))
      else (Inr (resp, messages, iterations), log))"
  by pat_completeness auto
termination
  by (relation "measure (\<lambda>(C, P, T, c, resp, messages, iterations, log). MAX_ITERATIONS - iterations)")
    auto

declare tool_loop.simps [simp del]

text \<open>
  \<open>response.content?.filter((b) => b.type === "text").map((b) => b.text).join("\n") || fallback\<close>
\<close>

definition text_segments :: "block list \<Rightarrow> string list" where
  "text_segments blocks = concat (map (\<lambda>b. case b of TextBlock t \<Rightarrow> [t] | _ \<Rightarrow> []) blocks)"

definition final_text :: "response \<Rightarrow> string" where
  "final_text resp =
     (case content resp of
        None \<Rightarrow> fallback_text
      | Some blocks \<Rightarrow>
          (let joined = join [CHR 0x0A] (text_segments blocks)
           in if joined = [] then fallback_text else joined))"

text \<open>\<open>getHistory\<close>: the stored array, empty when the key is absent or unreadable.\<close>

definition getHistory :: "turn list option \<Rightarrow> turn list" where
  "getHistory stored = (case stored of None \<Rightarrow> [] | Some h \<Rightarrow> h)"

text \<open>
  The state of a turn: the stored history (\<open>None\<close> when the key is absent) and the
  mutations issued to the tracker.
\<close>

record agent_state =
  kv_history :: "turn list option"
  tracker_log :: "api_call list"

text \<open>
  \<open>runAgent\<close> returns the text sent to the user and the new state, or the error it
  throws; then the history is as it was.
\<close>

definition runAgent ::
  "claude \<Rightarrow> platform \<Rightarrow> tracker \<Rightarrow> string \<Rightarrow> ctx \<Rightarrow> agent_state \<Rightarrow> (error + string) \<times> agent_state" where
  "runAgent C P T userMessage c s =
     (let history = getHistory (kv_history s);
          messages = map (\<lambda>(r, t). (r, Text t)) history @ [(User, Text userMessage)]
      in case C messages of
           Inl e \<Rightarrow> (Inl e, s)
         | Inr resp0 \<Rightarrow>
             (case tool_loop C P T c resp0 messages 0 (tracker_log s) of
                (Inl e, log') \<Rightarrow> (Inl e, s\<lparr>tracker_log := log'\<rparr>)
              | (Inr (resp, messages', iterations), log') \<Rightarrow>
                  (let assistantText = final_text resp
                   in (Inr assistantText,
                       \<lparr>kv_history = Some (saveHistory history userMessage assistantText),
                        tracker_log = log'\<rparr>))))"

section \<open>Fingerprint of the issues (briefing.js)\<close>

text \<open>
  The object \<open>hashIssues\<close> builds for each issue; \<open>None\<close> is \<open>undefined\<close>, except for
  the due date, where it is the \<open>null\<close> the tracker sends. The priority is the tracker's
  number, an integer.
\<close>

record normalized =
  n_id :: string
  n_status :: "string option"
  n_priority :: int
  n_assignee :: "string option"
  n_project :: "string option"
  n_labels :: "string list"
  n_dueDate :: "string option"

text \<open>
  \<open>.sort()\<close> without a comparator orders strings by their code units: the
  lexicographic order of \<open>string\<close>.
\<close>

definition normalize :: "issue \<Rightarrow> normalized" where
  "normalize i =
     \<lparr>n_id = i_identifier i,
      n_status = map_option s_name (i_state i),
      n_priority = i_priority i,
      n_assignee = map_option a_name (i_assignee i),
      n_project = map_option p_name (i_project i),
      n_labels = sort (map l_name (i_labels i)),
      n_dueDate = i_dueDate i\<rparr>"

text \<open>
  \<open>.sort((a, b) => a.id.localeCompare(b.id))\<close>. The collation of the platform is a
  parameter: \<open>collate\<close> maps a string to its sort key, and \<open>localeCompare\<close> compares the
  keys. \<open>Array.prototype.sort\<close> is stable, as \<open>sort_key\<close> is.
\<close>

definition normalized_issues :: "(string \<Rightarrow> 'k::linorder) \<Rightarrow> issue list \<Rightarrow> normalized list" where
  "normalized_issues collate iss = sort_key (\<lambda>n. collate (n_id n)) (map normalize iss)"

subsection \<open>\<open>JSON.stringify\<close> on the normalized list\<close>

definition hex_digit :: "nat \<Rightarrow> char" where
  "hex_digit n = ''0123456789abcdef'' ! n"

definition bs :: char where
  "bs = CHR 0x5C"

text \<open>The escapes of a quoted JSON string.\<close>

definition json_escape :: "char \<Rightarrow> string" where
  "json_escape ch =
     (let n = (of_char ch :: nat) in
      if ch = dq then [bs, dq]
      else if ch = bs then [bs, bs]
      else if n = 8 then [bs, CHR ''b'']
      else if n = 9 then [bs, CHR ''t'']
      else if n = 10 then [bs, CHR ''n'']
      else if n = 12 then [bs, CHR ''f'']
      else if n = 13 then [bs, CHR ''r'']
      else if n < 32 then [bs, CHR ''u'', CHR ''0'', CHR ''0'', hex_digit (n div 16), hex_digit (n mod 16)]
      else [ch])"

definition json_string :: "string \<Rightarrow> string" where
  "json_string s = [dq] @ concat (map json_escape s) @ [dq]"

function digits :: "nat \<Rightarrow> string" where
  "digits n = (if n < 10 then [char_of (48 + n)] else digits (n div 10) @ [char_of (48 + n mod 10)])"
  by pat_completeness auto
termination
  by (relation "measure (\<lambda>n. n)") auto

declare digits.simps [simp del]

definition json_int :: "int \<Rightarrow> string" where
  "json_int i = (if i < 0 then ''-'' @ digits (nat (- i)) else digits (nat i))"

definition json_array :: "string list \<Rightarrow> string" where
  "json_array xs = ''['' @ join '','' xs @ '']''"

text \<open>A property whose value is \<open>undefined\<close> is left out of the object.\<close>

definition json_object :: "(string \<times> string option) list \<Rightarrow> string" where
  "json_object props =
     ''{'' @ join '',''
        (concat (map (\<lambda>(k, v). case v of None \<Rightarrow> [] | Some t \<Rightarrow> [json_string k @ '':'' @ t]) props))
      @ ''}''"

definition json_normalized :: "normalized \<Rightarrow> string" where
  "json_normalized n =
     json_object
       [(''id'', Some (json_string (n_id n))),
        (''status'', map_option json_string (n_status n)),
        (''priority'', Some (json_int (n_priority n))),
        (''assignee'', map_option json_string (n_assignee n)),
        (''project'', map_option json_string (n_project n)),
        (''labels'', Some (json_array (map json_string (n_labels n)))),
        (''dueDate'', Some (case n_dueDate n of None \<Rightarrow> ''null'' | Some d \<Rightarrow> json_string d))]"

definition stringify :: "normalized list \<Rightarrow> string" where
  "stringify ns = json_array (map json_normalized ns)"

subsection \<open>The digest\<close>

text \<open>
  SHA-256 is a parameter: a function from the text (encoded by \<open>TextEncoder\<close>) to a
  256-bit value. The fingerprint is the digest's 32 bytes, each as two hexadecimal
  digits.
\<close>

definition hex_byte :: "8 word \<Rightarrow> string" where
  "hex_byte b = [hex_digit (unat b div 16), hex_digit (unat b mod 16)]"

definition digest_bytes :: "256 word \<Rightarrow> 8 word list" where
  "digest_bytes w = map (\<lambda>i. ucast (drop_bit (8 * (31 - i)) w)) [0..<32]"

definition hex_of_digest :: "256 word \<Rightarrow> string" where
  "hex_of_digest w = concat (map hex_byte (digest_bytes w))"

definition hashIssues ::
  "(string \<Rightarrow> 'k::linorder) \<Rightarrow> (string \<Rightarrow> 256 word) \<Rightarrow> issue list \<Rightarrow> string" where
  "hashIssues collate sha256 iss =
     (let normalized = normalized_issues collate iss;
          data = stringify normalized
      in hex_of_digest (sha256 data))"

section \<open>Daily briefing (briefing.js)\<close>

definition STALE_DAYS_THRESHOLD :: nat where
  "STALE_DAYS_THRESHOLD = 3"

definition escalation_text :: string where
  "escalation_text = ''SNAP OUT OF IT, LOCK IN!''"

definition no_issues_text :: string where
  "no_issues_text =
     ''No active issues in Linear. Either you'' @ [CHR 0x27]
       @ ''re crushing it or something is wrong.''"

definition fetch_failed_text :: "string \<Rightarrow> string" where
  "fetch_failed_text m =
     ''Briefing failed '' @ [CHR 0xE2, CHR 0x80, CHR 0x94] @ '' couldn'' @ [CHR 0x27]
       @ ''t reach Linear: '' @ m"

text \<open>
  The record stored under \<open>briefing_cache\<close>. The program is the only writer of the key and
  stores a number of days, so \<open>cache.unchangedDays || 0\<close> is the stored number.
\<close>

record cache_record =
  hash :: string
  briefing :: string
  unchangedDays :: nat
  lastRun :: string

text \<open>
  What a run finds outside the program: the result of \<open>fetchActiveIssues\<close>, the text
  the model generates for a list of issues (or the error of the call), the date, and
  whether reading the store fails.
\<close>

record briefing_env =
  fetchActiveIssues :: "error + issue list"
  generateBriefing :: "issue list \<Rightarrow> error + string"
  today :: string
  kv_get_fails :: bool

text \<open>
  The state a run changes: the stored record (\<open>None\<close> when the key is absent) and the
  messages sent to the chat, oldest first. A write to the store and a message to the chat
  are taken to succeed.
\<close>

record briefing_state =
  kv_cache :: "cache_record option"
  sent :: "string list"

definition sendMessage :: "string \<Rightarrow> briefing_state \<Rightarrow> briefing_state" where
  "sendMessage t s = s\<lparr>sent := sent s @ [t]\<rparr>"

definition kv_put :: "cache_record \<Rightarrow> briefing_state \<Rightarrow> briefing_state" where
  "kv_put r s = s\<lparr>kv_cache := Some r\<rparr>"

text \<open>The branch \<open>cache && cache.hash === currentHash\<close>.\<close>

definition reuse_cached :: "briefing_env \<Rightarrow> string \<Rightarrow> cache_record \<Rightarrow> briefing_state \<Rightarrow> briefing_state" where
  "reuse_cached env currentHash cache s =
     (let unchanged = unchangedDays cache + 1;
          text = (if unchanged \<ge> STALE_DAYS_THRESHOLD then escalation_text else briefing cache);
          s' = kv_put \<lparr>hash = currentHash, briefing = briefing cache,
                       unchangedDays = unchanged, lastRun = today env\<rparr> s
      in sendMessage text s')"

text \<open>The rest of the function: generate, store, send. An error of the model call leaves
  the function before anything is stored or sent.\<close>

definition generate_fresh ::
  "briefing_env \<Rightarrow> string \<Rightarrow> issue list \<Rightarrow> briefing_state \<Rightarrow> (error + unit) \<times> briefing_state" where
  "generate_fresh env currentHash iss s =
     (case generateBriefing env iss of
        Inl e \<Rightarrow> (Inl e, s)
      | Inr text \<Rightarrow>
          (let s' = kv_put \<lparr>hash = currentHash, briefing = text,
                             unchangedDays = 0, lastRun = today env\<rparr> s
           in (Inr (), sendMessage text s')))"

definition handleDailyBriefing ::
  "(string \<Rightarrow> 'k::linorder) \<Rightarrow> (string \<Rightarrow> 256 word) \<Rightarrow> briefing_env \<Rightarrow> briefing_state
     \<Rightarrow> (error + unit) \<times> briefing_state" where
  "handleDailyBriefing collate sha256 env s =
     (case fetchActiveIssues env of
        Inl err \<Rightarrow> (Inr (), sendMessage (fetch_failed_text (message err)) s)
      | Inr iss \<Rightarrow>
          if length iss = 0 then (Inr (), sendMessage no_issues_text s)
          else
            (let currentHash = hashIssues collate sha256 iss;
                 cache = (if kv_get_fails env then None else kv_cache s)
             in case cache of
                  None \<Rightarrow> generate_fresh env currentHash iss s
                | Some r \<Rightarrow>
                    if hash r = currentHash then (Inr (), reuse_cached env currentHash r s)
                    else generate_fresh env currentHash iss s))"

text \<open>Consecutive scheduled runs, each in the state the run before it left.\<close>

fun briefing_runs ::
  "(string \<Rightarrow> 'k::linorder) \<Rightarrow> (string \<Rightarrow> 256 word) \<Rightarrow> briefing_env list \<Rightarrow> briefing_state
     \<Rightarrow> briefing_state" where
  "briefing_runs collate sha256 [] s = s"
| "briefing_runs collate sha256 (env # envs) s =
     briefing_runs collate sha256 envs (snd (handleDailyBriefing collate sha256 env s))"

text \<open>
  A run whose fingerprint meets a stored record with the fingerprint \<open>h\<close>: the fetch
  succeeds with at least one issue, the fingerprint of the issues is \<open>h\<close>, and the store
  can be read.
\<close>

definition is_hit ::
  "(string \<Rightarrow> 'k::linorder) \<Rightarrow> (string \<Rightarrow> 256 word) \<Rightarrow> string \<Rightarrow> briefing_env \<Rightarrow> bool" where
  "is_hit collate sha256 h env =
     (\<not> kv_get_fails env \<and>
      (case fetchActiveIssues env of
         Inl e \<Rightarrow> False
       | Inr iss \<Rightarrow> iss \<noteq> [] \<and> hashIssues collate sha256 iss = h))"

section \<open>Notions used to state the properties of the fingerprint\<close>

text \<open>The issue \<open>b\<close> is the issue \<open>a\<close> with its labels in another order.\<close>

definition relabelled :: "issue \<Rightarrow> issue \<Rightarrow> bool" where
  "relabelled a b = (b\<lparr>i_labels := i_labels a\<rparr> = a \<and> mset (i_labels b) = mset (i_labels a))"

text \<open>
  The issues \<open>a\<close> and \<open>b\<close> differ in a tracked field: the status name, the priority, the
  name of the assignee, the name of the project, the set of label names or the due date.
\<close>

definition tracked_differ :: "issue \<Rightarrow> issue \<Rightarrow> bool" where
  "tracked_differ a b =
     (map_option s_name (i_state a) \<noteq> map_option s_name (i_state b) \<or>
      i_priority a \<noteq> i_priority b \<or>
      map_option a_name (i_assignee a) \<noteq> map_option a_name (i_assignee b) \<or>
      map_option p_name (i_project a) \<noteq> map_option p_name (i_project b) \<or>
      set (map l_name (i_labels a)) \<noteq> set (map l_name (i_labels b)) \<or>
      i_dueDate a \<noteq> i_dueDate b)"

text \<open>The text \<open>hashIssues\<close> hands to the digest.\<close>

definition hashed_text :: "(string \<Rightarrow> 'k::linorder) \<Rightarrow> issue list \<Rightarrow> string" where
  "hashed_text collate iss = stringify (normalized_issues collate iss)"

section \<open>Reading the JSON text back\<close>

text \<open>
  The functions of this section are not part of the program. They read back what
  \<open>json_escape\<close> and \<open>digits\<close> write, and serve to show that the text written for a list of
  normalized issues determines the list.
\<close>

definition hex_val :: "char \<Rightarrow> nat" where
  "hex_val ch = (if of_char ch < (58::nat) then of_char ch - 48 else of_char ch - 87)"

definition read_escape :: "string \<Rightarrow> (char \<times> string) option" where
  "read_escape t =
     (case t of
        [] \<Rightarrow> None
      | a # rest \<Rightarrow>
          if a \<noteq> bs then Some (a, rest)
          else (case rest of
                  [] \<Rightarrow> None
                | b # rest' \<Rightarrow>
                    if b = dq \<or> b = bs then Some (b, rest')
                    else if b = CHR ''b'' then Some (char_of (8::nat), rest')
                    else if b = CHR ''t'' then Some (char_of (9::nat), rest')
                    else if b = CHR ''n'' then Some (char_of (10::nat), rest')
                    else if b = CHR ''f'' then Some (char_of (12::nat), rest')
                    else if b = CHR ''r'' then Some (char_of (13::nat), rest')
                    else (case rest' of
                            z1 # z2 # h1 # h2 # r \<Rightarrow> Some (char_of (16 * hex_val h1 + hex_val h2), r)
                          | _ \<Rightarrow> None)))"

definition is_digit :: "char \<Rightarrow> bool" where
  "is_digit ch = (48 \<le> (of_char ch :: nat) \<and> (of_char ch :: nat) \<le> 57)"

definition digits_val :: "string \<Rightarrow> nat" where
  "digits_val s = foldl (\<lambda>a ch. 10 * a + (of_char ch - 48)) 0 s"

definition opt_prop :: "string \<Rightarrow> string option \<Rightarrow> string" where
  "opt_prop k v = (case v of None \<Rightarrow> [] | Some t \<Rightarrow> '','' @ json_string k @ '':'' @ json_string t)"


section \<open>Concrete inputs used by the witnesses\<close>

definition ex_pairs :: "(string \<times> string) list" where
  "ex_pairs = map (\<lambda>i. (replicate i CHR ''u'', replicate i CHR ''a'')) [0..<22]"

definition ex_issue :: issue where
  "ex_issue =
     \<lparr>i_id = ''a1b2'', i_identifier = ''YAK-1'', i_title = ''Fix login'',
      i_description = Some ''Users cannot log in'', i_priority = 2, i_priorityLabel = ''High'',
      i_dueDate = None,
      i_state = Some \<lparr>s_id = ''st-1'', s_name = ''Todo'', s_type = ''unstarted''\<rparr>,
      i_project = None, i_assignee = None,
      i_labels = [\<lparr>l_id = ''lb-1'', l_name = ''bug''\<rparr>],
      i_url = ''https://linear.app/yak/issue/YAK-1''\<rparr>"

definition ex_sha :: "string \<Rightarrow> 256 word" where
  "ex_sha s = of_nat (length s)"

definition ex_env :: briefing_env where
  "ex_env =
     \<lparr>fetchActiveIssues = Inr [ex_issue], generateBriefing = (\<lambda>iss. Inr ''TOP PRIORITY - YAK-1''),
      today = ''2026-03-02'', kv_get_fails = False\<rparr>"

definition ex_empty_env :: briefing_env where
  "ex_empty_env =
     \<lparr>fetchActiveIssues = Inr [], generateBriefing = (\<lambda>iss. Inr ''TOP PRIORITY - YAK-1''),
      today = ''2026-03-02'', kv_get_fails = False\<rparr>"

definition ex_record :: cache_record where
  "ex_record =
     \<lparr>hash = hashIssues (\<lambda>s. s) ex_sha [ex_issue], briefing = ''TOP PRIORITY - YAK-1'',
      unchangedDays = 0, lastRun = ''2026-03-01''\<rparr>"

definition ex_ctx :: ctx where
  "ex_ctx =
     \<lparr>teamId = Some ''team-1'', teamKey = ''YAK'', issues = [ex_issue],
      states = [\<lparr>s_id = ''st-1'', s_name = ''Todo'', s_type = ''unstarted''\<rparr>,
                \<lparr>s_id = ''st-2'', s_name = ''Done'', s_type = ''completed''\<rparr>],
      labels = [\<lparr>l_id = ''lb-1'', l_name = ''bug''\<rparr>, \<lparr>l_id = ''lb-2'', l_name = ''Blocked''\<rparr>],
      projects = [\<lparr>p_id = ''pr-1'', p_name = ''Client Portal''\<rparr>],
      members = [\<lparr>m_id = ''u-1'', m_name = Some ''Zach Ellis'', m_displayName = Some ''zach''\<rparr>]\<rparr>"

definition ex_input :: tool_input where
  "ex_input =
     \<lparr>issue_identifier = None, status = None, in_priority = None, comment = None,
      label_name = None, in_title = None, in_description = None, due_date = None,
      project_name = None, subtasks = None, in_name = None, assignee_name = None\<rparr>"

text \<open>A tracker that answers every mutation with an HTTP failure.\<close>

definition ex_down :: tracker where
  "ex_down =
     \<lparr>issueUpdate = (\<lambda>log i u. Inl (Error ''Linear API HTTP 500: Internal Server Error'')),
      issueCreate = (\<lambda>log i. Inl (Error ''Linear API HTTP 500: Internal Server Error'')),
      commentCreate = (\<lambda>log i b. Inl (Error ''Linear API HTTP 500: Internal Server Error'')),
      projectCreate = (\<lambda>log i. Inl (Error ''Linear API HTTP 500: Internal Server Error'')),
      issueLabelCreate = (\<lambda>log n t. Inl (Error ''Linear API HTTP 500: Internal Server Error''))\<rparr>"

text \<open>A tracker that accepts every mutation.\<close>

definition ex_tracker :: tracker where
  "ex_tracker =
     \<lparr>issueUpdate = (\<lambda>log iid upd. Inr
        \<lparr>u_id = iid, u_identifier = ''YAK-1'', u_title = ''Fix login'', u_dueDate = None,
         u_state_name = (case upd of SetStateId sid \<Rightarrow> if sid = ''st-2'' then ''Done'' else ''Todo''
                         | _ \<Rightarrow> ''Todo''),
         u_priority = 2, u_priorityLabel = ''High'', u_assignee_name = None,
         u_label_names = (case upd of SetLabelIds ids \<Rightarrow> ids | _ \<Rightarrow> [''lb-1'']),
         u_project_name = None\<rparr>),
      issueCreate = (\<lambda>log ci. Inr
        \<lparr>c_id = ''c3d4'', c_identifier = ''YAK-2'', c_title = js_str (ci_title ci),
         c_url = ''https://linear.app/yak/issue/YAK-2'', c_dueDate = ci_dueDate ci,
         c_state_name = ''Todo''\<rparr>),
      commentCreate = (\<lambda>log iid body. Inr \<lparr>cm_id = ''cm-1'', cm_body = js_str body\<rparr>),
      projectCreate = (\<lambda>log pin. Inr \<lparr>p_id = ''pr-9'', p_name = js_str (pi_name pin)\<rparr>),
      issueLabelCreate = (\<lambda>log name team. Inr \<lparr>l_id = ''lb-9'', l_name = js_str name\<rparr>)\<rparr>"

text \<open>A create-issue request naming a project and a status the snapshot does not have.\<close>

definition ex_create :: tool_input where
  "ex_create =
     ex_input\<lparr>in_title := Some ''Set up staging'', project_name := Some ''Mobile App'',
       status := Some ''In Review'',
       subtasks := Some [\<lparr>sub_title = Some ''Provision database'', sub_description = None,
                          sub_priority = None, sub_due_date = None\<rparr>]\<rparr>"

text \<open>Two models that never stop asking for a tool: one also talks, one does not.\<close>

definition ex_claude :: claude where
  "ex_claude ms =
     Inr \<lparr>stop_reason = ''tool_use'',
          content = Some [TextBlock ''On it.'',
                          ToolUseBlock ''toolu_01'' ''update_issue_status''
                            (ex_input\<lparr>issue_identifier := Some ''yak-1'', status := Some ''done''\<rparr>),
                          TextBlock ''Still working.'']\<rparr>"

definition ex_claude_silent :: claude where
  "ex_claude_silent ms =
     Inr \<lparr>stop_reason = ''tool_use'',
          content = Some [ToolUseBlock ''toolu_01'' ''add_comment''
                            (ex_input\<lparr>issue_identifier := Some ''yak-1'', comment := Some ''ping''\<rparr>)]\<rparr>"

text \<open>Two issues, and the same two with the labels of the first in another order.\<close>

definition ex_issue_a :: issue where
  "ex_issue_a =
     ex_issue\<lparr>i_labels := [\<lparr>l_id = ''lb-1'', l_name = ''bug''\<rparr>, \<lparr>l_id = ''lb-2'', l_name = ''Blocked''\<rparr>]\<rparr>"

definition ex_issue_a' :: issue where
  "ex_issue_a' =
     ex_issue\<lparr>i_labels := [\<lparr>l_id = ''lb-2'', l_name = ''Blocked''\<rparr>, \<lparr>l_id = ''lb-1'', l_name = ''bug''\<rparr>]\<rparr>"

definition ex_issue_b :: issue where
  "ex_issue_b =
     \<lparr>i_id = ''e5f6'', i_identifier = ''YAK-2'', i_title = ''Write docs'',
      i_description = None, i_priority = 4, i_priorityLabel = ''Low'',
      i_dueDate = Some ''2026-03-15'',
      i_state = Some \<lparr>s_id = ''st-1'', s_name = ''Todo'', s_type = ''unstarted''\<rparr>,
      i_project = Some \<lparr>p_id = ''pr-1'', p_name = ''Client Portal''\<rparr>,
      i_assignee = Some \<lparr>a_id = ''u-1'', a_name = ''Zach Ellis''\<rparr>,
      i_labels = [],
      i_url = ''https://linear.app/yak/issue/YAK-2''\<rparr>"

section \<open>Conversation memory is bounded\<close>


lemma slice_last_drop: "slice_last n xs = drop (length xs - n) xs"
  by (simp add: slice_last_def)

lemma length_pairs: "length (concat (map pair_turns qs)) = 2 * length qs"
  by (induction qs) (simp_all add: pair_turns_def)

lemma drop_pairs: "drop (2 * k) (concat (map pair_turns qs)) = concat (map pair_turns (drop k qs))"
proof (induction qs arbitrary: k)
  case Nil then show ?case by simp
next
  case (Cons q qs)
  show ?case
  proof (cases k)
    case 0 then show ?thesis by simp
  next
    case (Suc j)
    with Cons.IH [of j] show ?thesis by (simp add: pair_turns_def)
  qed
qed

lemma slice_last_pairs:
  "slice_last (2 * n) (concat (map pair_turns qs)) = concat (map pair_turns (slice_last n qs))"
proof -
  have "length (concat (map pair_turns qs)) - 2 * n = 2 * (length qs - n)"
    by (simp add: length_pairs)
  then show ?thesis by (simp add: slice_last_drop drop_pairs)
qed

lemma slice_last_snoc: "slice_last n (slice_last n qs @ [p]) = slice_last n (qs @ [p])"
proof (cases "length qs \<le> n")
  case True
  then show ?thesis by (simp add: slice_last_def)
next
  case False
  then have "Suc (length qs) - n = Suc (length qs - n)" by simp
  with False show ?thesis by (simp add: slice_last_def)
qed

lemma saveHistory_pairs:
  "saveHistory (concat (map pair_turns (slice_last MAX_HISTORY_PAIRS qs))) u a =
     concat (map pair_turns (slice_last MAX_HISTORY_PAIRS (qs @ [(u, a)])))"
proof -
  have "concat (map pair_turns (slice_last MAX_HISTORY_PAIRS qs)) @ [(User, u), (Assistant, a)]
          = concat (map pair_turns (slice_last MAX_HISTORY_PAIRS qs @ [(u, a)]))"
    by (simp add: pair_turns_def)
  then show ?thesis
    unfolding saveHistory_def Let_def
    by (simp only: mult.commute [of MAX_HISTORY_PAIRS 2] slice_last_pairs slice_last_snoc)
qed

lemma appends_pairs:
  "appends (concat (map pair_turns (slice_last MAX_HISTORY_PAIRS qs))) ps =
     concat (map pair_turns (slice_last MAX_HISTORY_PAIRS (qs @ ps)))"
proof (induction ps arbitrary: qs)
  case Nil then show ?case by simp
next
  case (Cons p ps)
  obtain u a where p: "p = (u, a)" by (cases p)
  show ?case using Cons.IH [of "qs @ [(u, a)]"] by (simp add: p saveHistory_pairs)
qed

text \<open>
  Claim C7 (memory bounding). Whatever the stored history was, the value written by
  \<open>saveHistory\<close> has at most \<open>2 * MAX_HISTORY_PAIRS = 40\<close> entries. Starting from the
  empty history, after the exchanges \<open>ps\<close> the stored history is exactly the turns of the
  last \<open>MAX_HISTORY_PAIRS\<close> exchanges (all of them when there are fewer), user turn then
  assistant turn, oldest first; once more than \<open>MAX_HISTORY_PAIRS\<close> exchanges were
  appended these are the most recent \<open>MAX_HISTORY_PAIRS\<close> ones.
\<close>

theorem saveHistory_bounded:
  "length (saveHistory existing u a) \<le> 2 * MAX_HISTORY_PAIRS \<and>
   appends [] ps = concat (map pair_turns (slice_last MAX_HISTORY_PAIRS ps)) \<and>
   length (appends [] ps) = 2 * min (length ps) MAX_HISTORY_PAIRS \<and>
   (MAX_HISTORY_PAIRS < length ps \<longrightarrow>
      appends [] ps = concat (map pair_turns (drop (length ps - MAX_HISTORY_PAIRS) ps)))"
proof -
  have a: "length (saveHistory existing u a) \<le> 2 * MAX_HISTORY_PAIRS"
    by (simp add: saveHistory_def slice_last_def Let_def MAX_HISTORY_PAIRS_def)
  have "appends (concat (map pair_turns (slice_last MAX_HISTORY_PAIRS []))) ps =
          concat (map pair_turns (slice_last MAX_HISTORY_PAIRS ([] @ ps)))"
    by (rule appends_pairs)
  then have b: "appends [] ps = concat (map pair_turns (slice_last MAX_HISTORY_PAIRS ps))"
    by (simp add: slice_last_def)
  have c: "length (appends [] ps) = 2 * min (length ps) MAX_HISTORY_PAIRS"
    by (simp add: b length_pairs slice_last_def)
  have d: "MAX_HISTORY_PAIRS < length ps \<longrightarrow>
      appends [] ps = concat (map pair_turns (drop (length ps - MAX_HISTORY_PAIRS) ps))"
    by (simp add: b slice_last_def)
  from a b c d show ?thesis by blast
qed


theorem saveHistory_bounded_witness:
  "MAX_HISTORY_PAIRS < length ex_pairs \<and>
   length (saveHistory (appends [] ex_pairs) ''hi'' ''yo'') \<le> 2 * MAX_HISTORY_PAIRS \<and>
   length (appends [] ex_pairs) = 40 \<and>
   appends [] ex_pairs = concat (map pair_turns (drop 2 ex_pairs))"
proof -
  have l: "length ex_pairs = 22" by (simp add: ex_pairs_def)
  have m: "MAX_HISTORY_PAIRS < length ex_pairs" by (simp add: l MAX_HISTORY_PAIRS_def)
  note t = saveHistory_bounded [of "appends [] ex_pairs" "''hi''" "''yo''" ex_pairs]
  from t have a: "length (saveHistory (appends [] ex_pairs) ''hi'' ''yo'') \<le> 2 * MAX_HISTORY_PAIRS"
    by (rule conjunct1)
  from t have "length (appends [] ex_pairs) = 2 * min (length ex_pairs) MAX_HISTORY_PAIRS"
    by blast
  with l have c: "length (appends [] ex_pairs) = 40"
    by (simp add: MAX_HISTORY_PAIRS_def)
  from t m have "appends [] ex_pairs =
      concat (map pair_turns (drop (length ex_pairs - MAX_HISTORY_PAIRS) ex_pairs))"
    by blast
  with l have d: "appends [] ex_pairs = concat (map pair_turns (drop 2 ex_pairs))"
    by (simp add: MAX_HISTORY_PAIRS_def)
  from m a c d show ?thesis by blast
qed


section \<open>The daily briefing and its cache\<close>


lemma hit_run:
  assumes "kv_cache s = Some r"
    and "fetchActiveIssues env = Inr iss" and "iss \<noteq> []"
    and "hashIssues collate sha256 iss = hash r" and "\<not> kv_get_fails env"
  shows "handleDailyBriefing collate sha256 env s =
    (Inr (),
     \<lparr>kv_cache = Some \<lparr>hash = hash r, briefing = briefing r,
                        unchangedDays = unchangedDays r + 1, lastRun = today env\<rparr>,
      sent = sent s @ [if unchangedDays r + 1 \<ge> STALE_DAYS_THRESHOLD then escalation_text
                       else briefing r]\<rparr>)"
  using assms
  by (simp add: handleDailyBriefing_def reuse_cached_def kv_put_def sendMessage_def Let_def)

lemma hit_run_record:
  assumes "kv_cache s = Some r" and "is_hit collate sha256 (hash r) env"
  shows "handleDailyBriefing collate sha256 env s =
    (Inr (),
     \<lparr>kv_cache = Some \<lparr>hash = hash r, briefing = briefing r,
                        unchangedDays = unchangedDays r + 1, lastRun = today env\<rparr>,
      sent = sent s @ [if unchangedDays r + 1 \<ge> STALE_DAYS_THRESHOLD then escalation_text
                       else briefing r]\<rparr>)"
proof -
  from assms(2) obtain iss where "fetchActiveIssues env = Inr iss" "iss \<noteq> []"
    "hashIssues collate sha256 iss = hash r" "\<not> kv_get_fails env"
    by (auto simp: is_hit_def split: sum.splits)
  with assms(1) show ?thesis by (rule hit_run)
qed

text \<open>
  Claim C1 (cache escalation). The stored record \<open>r\<close> has the fingerprint \<open>hash r\<close>, and
  three consecutive scheduled runs each find issues with that same fingerprint. Then the
  third run sends the escalation text, and the record stored after it still carries the
  briefing text of \<open>r\<close>, with the count raised by three. The first and the second run send
  the cached text as long as the count they reach is below the threshold of 3: both do
  when \<open>r\<close> is a record as a regenerating run stores it, with the count 0.
\<close>

theorem cache_escalation:
  assumes "kv_cache s = Some r"
    and "is_hit collate sha256 (hash r) e1"
    and "is_hit collate sha256 (hash r) e2"
    and "is_hit collate sha256 (hash r) e3"
  shows "sent (briefing_runs collate sha256 [e1, e2, e3] s) =
           sent s @ [if unchangedDays r + 1 \<ge> STALE_DAYS_THRESHOLD then escalation_text else briefing r,
                     if unchangedDays r + 2 \<ge> STALE_DAYS_THRESHOLD then escalation_text else briefing r,
                     escalation_text] \<and>
         kv_cache (briefing_runs collate sha256 [e1, e2, e3] s) =
           Some \<lparr>hash = hash r, briefing = briefing r,
                 unchangedDays = unchangedDays r + 3, lastRun = today e3\<rparr> \<and>
         STALE_DAYS_THRESHOLD = 3"
proof -
  let ?r1 = "\<lparr>hash = hash r, briefing = briefing r,
                unchangedDays = unchangedDays r + 1, lastRun = today e1\<rparr>"
  let ?r2 = "\<lparr>hash = hash r, briefing = briefing r,
                unchangedDays = unchangedDays r + 2, lastRun = today e2\<rparr>"
  let ?s1 = "snd (handleDailyBriefing collate sha256 e1 s)"
  let ?s2 = "snd (handleDailyBriefing collate sha256 e2 ?s1)"
  let ?s3 = "snd (handleDailyBriefing collate sha256 e3 ?s2)"
  have k1: "kv_cache ?s1 = Some ?r1"
    and m1: "sent ?s1 = sent s @ [if unchangedDays r + 1 \<ge> STALE_DAYS_THRESHOLD
                                 then escalation_text else briefing r]"
    by (simp_all add: hit_run_record [OF assms(1) assms(2)])
  have h2: "is_hit collate sha256 (hash ?r1) e2" using assms(3) by simp
  have k2: "kv_cache ?s2 = Some ?r2"
    and m2: "sent ?s2 = sent ?s1 @ [if unchangedDays r + 2 \<ge> STALE_DAYS_THRESHOLD
                                 then escalation_text else briefing r]"
    by (simp_all add: hit_run_record [OF k1 h2])
  have h3: "is_hit collate sha256 (hash ?r2) e3" using assms(4) by simp
  have k3: "kv_cache ?s3 = Some \<lparr>hash = hash r, briefing = briefing r,
                unchangedDays = unchangedDays r + 3, lastRun = today e3\<rparr>"
    and m3: "sent ?s3 = sent ?s2 @ [escalation_text]"
    by (simp_all add: hit_run_record [OF k2 h3] STALE_DAYS_THRESHOLD_def)
  have run: "briefing_runs collate sha256 [e1, e2, e3] s = ?s3"
    by simp
  show ?thesis
    unfolding run using k3 m1 m2 m3 by (auto simp: STALE_DAYS_THRESHOLD_def)
qed

theorem cache_escalation_witness:
  "sent (briefing_runs (\<lambda>s. s) ex_sha [ex_env, ex_env, ex_env]
           (snd (handleDailyBriefing (\<lambda>s. s) ex_sha ex_env \<lparr>kv_cache = None, sent = []\<rparr>))) =
     [''TOP PRIORITY - YAK-1'', ''TOP PRIORITY - YAK-1'', ''TOP PRIORITY - YAK-1'', escalation_text] \<and>
   map_option briefing (kv_cache (briefing_runs (\<lambda>s. s) ex_sha [ex_env, ex_env, ex_env]
           (snd (handleDailyBriefing (\<lambda>s. s) ex_sha ex_env \<lparr>kv_cache = None, sent = []\<rparr>)))) =
     Some ''TOP PRIORITY - YAK-1''"
proof -
  let ?r = "\<lparr>hash = hashIssues (\<lambda>s. s) ex_sha [ex_issue], briefing = ''TOP PRIORITY - YAK-1'',
             unchangedDays = 0, lastRun = ''2026-03-02''\<rparr>"
  let ?s = "\<lparr>kv_cache = Some ?r, sent = [''TOP PRIORITY - YAK-1'']\<rparr>"
  have first: "snd (handleDailyBriefing (\<lambda>s. s) ex_sha ex_env \<lparr>kv_cache = None, sent = []\<rparr>) = ?s"
    by (simp add: handleDailyBriefing_def generate_fresh_def kv_put_def sendMessage_def ex_env_def Let_def)
  have k: "kv_cache ?s = Some ?r" by simp
  have h: "is_hit (\<lambda>s. s) ex_sha (hash ?r) ex_env"
    by (simp add: is_hit_def ex_env_def)
  from cache_escalation [OF k h h h] show ?thesis
    by (simp add: first)
qed

text \<open>
  Claim C4 (empty snapshot). When the fetch returns no issue, the run sends exactly the
  fixed message and returns; the stored record is what it was.
\<close>

theorem empty_snapshot_carve_out:
  assumes "fetchActiveIssues env = Inr []"
  shows "handleDailyBriefing collate sha256 env s = (Inr (), s\<lparr>sent := sent s @ [no_issues_text]\<rparr>) \<and>
         kv_cache (snd (handleDailyBriefing collate sha256 env s)) = kv_cache s \<and>
         sent (snd (handleDailyBriefing collate sha256 env s)) = sent s @ [no_issues_text]"
  using assms by (simp add: handleDailyBriefing_def sendMessage_def)

theorem empty_snapshot_carve_out_witness:
  "fetchActiveIssues ex_empty_env = Inr [] \<and>
   handleDailyBriefing (\<lambda>s. s) ex_sha ex_empty_env \<lparr>kv_cache = Some ex_record, sent = []\<rparr> =
     (Inr (), \<lparr>kv_cache = Some ex_record, sent = [no_issues_text]\<rparr>)"
proof -
  have e: "fetchActiveIssues ex_empty_env = Inr []" by (simp add: ex_empty_env_def)
  from empty_snapshot_carve_out [OF e, where collate = "\<lambda>s. s" and ?sha256.0 = ex_sha
      and s = "\<lparr>kv_cache = Some ex_record, sent = []\<rparr>"] e
  show ?thesis by simp
qed

section \<open>The operation executor\<close>

subsection \<open>Letter case\<close>

text \<open>
  On ASCII text the two conversions cancel each other, so that two strings have the same
  upper-case form exactly when they have the same lower-case form.
\<close>

lemma upper_lower_char: "ascii_upper_char (ascii_lower_char ch) = ascii_upper_char ch"
  by (auto simp: ascii_upper_char_def ascii_lower_char_def Let_def)

lemma lower_upper_char: "ascii_lower_char (ascii_upper_char ch) = ascii_lower_char ch"
  by (auto simp: ascii_upper_char_def ascii_lower_char_def Let_def)

lemma upper_lower: "toUpperCase ascii (toLowerCase ascii s) = toUpperCase ascii s"
  by (simp add: ascii_def upper_lower_char)

lemma lower_upper: "toLowerCase ascii (toUpperCase ascii s) = toLowerCase ascii s"
  by (simp add: ascii_def lower_upper_char)

lemma eq_ignore_case_ascii:
  "eq_ignore_case ascii a b \<longleftrightarrow> toLowerCase ascii a = toLowerCase ascii b"
proof
  assume "eq_ignore_case ascii a b"
  then have "toLowerCase ascii (toUpperCase ascii a) = toLowerCase ascii (toUpperCase ascii b)"
    by (simp add: eq_ignore_case_def)
  then show "toLowerCase ascii a = toLowerCase ascii b" by (simp add: lower_upper)
next
  assume "toLowerCase ascii a = toLowerCase ascii b"
  then have "toUpperCase ascii (toLowerCase ascii a) = toUpperCase ascii (toLowerCase ascii b)"
    by simp
  then show "eq_ignore_case ascii a b" by (simp add: eq_ignore_case_def upper_lower)
qed

lemma case_tests:
  "toUpperCase ascii ''yak-1'' = ''YAK-1''" "toUpperCase ascii ''yak-2'' = ''YAK-2''"
  "toUpperCase ascii ''YAK-1'' = ''YAK-1''" "toLowerCase ascii ''yak-1'' = ''yak-1''"
  "toLowerCase ascii ''Done'' = ''done''" "toLowerCase ascii ''done'' = ''done''"
  "toLowerCase ascii ''Todo'' = ''todo''" "toLowerCase ascii ''bug'' = ''bug''"
  "toLowerCase ascii ''BUG'' = ''bug''"
  "toLowerCase ascii ''Blocked'' = ''blocked''" "toLowerCase ascii ''blocked'' = ''blocked''"
  "toLowerCase ascii ''Client Portal'' = ''client portal''"
  "toLowerCase ascii ''Mobile App'' = ''mobile app''"
  "toLowerCase ascii ''In Review'' = ''in review''"
  by code_simp+

subsection \<open>Looking up the issue\<close>

lemma findIssue_iff:
  "findIssue P x iss \<noteq> None \<longleftrightarrow> (\<exists>i \<in> set iss. i_identifier i = toUpperCase P x)"
  by (auto simp: findIssue_def Let_def find_None_iff)

lemma findIssue_Some:
  assumes "findIssue P x iss = Some issue"
  shows "issue \<in> set iss \<and> i_identifier issue = toUpperCase P x"
  using assms by (auto simp: findIssue_def Let_def find_Some_iff)


subsection \<open>Totality of \<open>executeTool\<close>\<close>

text \<open>
  Claim C6 (executor totality). For every tool name, input, context and tracker,
  \<open>executeTool\<close> returns a result and throws nothing. A name that is not in the registry
  gives the "Unknown tool" error result and issues no mutation. Whenever the handler
  selected by the name throws, be it its own \<open>TypeError\<close> or the error of a call to the
  tracker, the result is the error result carrying the tool name and the error's message.
\<close>

theorem executeTool_total:
  "(\<exists>r. fst (executeTool P T toolName inp c log) = Inr r) \<and>
   (toolName \<notin> set tool_names \<longrightarrow>
      executeTool P T toolName inp c log = (Inr (Failure (''Unknown tool: '' @ toolName)), log)) \<and>
   (\<forall>err log'. dispatch P T toolName inp c log = (Inl err, log') \<longrightarrow>
      executeTool P T toolName inp c log =
        (Inr (Failure (''Tool '' @ [dq] @ toolName @ [dq] @ '' failed: '' @ message err)), log'))"
proof (intro conjI allI impI)
  show "\<exists>r. fst (executeTool P T toolName inp c log) = Inr r"
    by (cases "dispatch P T toolName inp c log") (auto simp: executeTool_def split: sum.splits)
next
  assume "toolName \<notin> set tool_names"
  then have "dispatch P T toolName inp c log = (Inr (Failure (''Unknown tool: '' @ toolName)), log)"
    by (simp add: tool_names_def dispatch_def return_io_def)
  then show "executeTool P T toolName inp c log = (Inr (Failure (''Unknown tool: '' @ toolName)), log)"
    by (simp add: executeTool_def)
next
  fix err log'
  assume "dispatch P T toolName inp c log = (Inl err, log')"
  then show "executeTool P T toolName inp c log =
        (Inr (Failure (''Tool '' @ [dq] @ toolName @ [dq] @ '' failed: '' @ message err)), log')"
    by (simp add: executeTool_def)
qed

theorem executeTool_total_witness:
  "''delete_issue'' \<notin> set tool_names \<and>
   executeTool ascii ex_down ''delete_issue'' ex_input ex_ctx [] =
     (Inr (Failure ''Unknown tool: delete_issue''), []) \<and>
   dispatch ascii ex_down ''add_comment'' ex_input ex_ctx [] =
     (Inl (TypeError (''Cannot read properties of undefined (reading '' @ [CHR 0x27]
        @ ''toUpperCase'' @ [CHR 0x27] @ '')'')), []) \<and>
   executeTool ascii ex_down ''add_comment'' ex_input ex_ctx [] =
     (Inr (Failure (''Tool '' @ [dq] @ ''add_comment'' @ [dq]
        @ '' failed: Cannot read properties of undefined (reading '' @ [CHR 0x27]
        @ ''toUpperCase'' @ [CHR 0x27] @ '')'')), []) \<and>
   dispatch ascii ex_down ''update_issue_status''
       (ex_input\<lparr>issue_identifier := Some ''yak-1'', status := Some ''done''\<rparr>) ex_ctx [] =
     (Inl (Error ''Linear API HTTP 500: Internal Server Error''),
      [IssueUpdate ''a1b2'' (SetStateId ''st-2'')]) \<and>
   executeTool ascii ex_down ''update_issue_status''
       (ex_input\<lparr>issue_identifier := Some ''yak-1'', status := Some ''done''\<rparr>) ex_ctx [] =
     (Inr (Failure (''Tool '' @ [dq] @ ''update_issue_status'' @ [dq]
        @ '' failed: Linear API HTTP 500: Internal Server Error'')),
      [IssueUpdate ''a1b2'' (SetStateId ''st-2'')])"
proof -
  have n: "''delete_issue'' \<notin> set tool_names" by (simp add: tool_names_def)
  have d1: "dispatch ascii ex_down ''add_comment'' ex_input ex_ctx [] =
     (Inl (TypeError (''Cannot read properties of undefined (reading '' @ [CHR 0x27]
        @ ''toUpperCase'' @ [CHR 0x27] @ '')'')), [])"
    by (simp add: dispatch_def handleAddComment_def with_issue_def ex_input_def throw_io_def
        type_error_reading_def)
  have d2: "dispatch ascii ex_down ''update_issue_status''
       (ex_input\<lparr>issue_identifier := Some ''yak-1'', status := Some ''done''\<rparr>) ex_ctx [] =
     (Inl (Error ''Linear API HTTP 500: Internal Server Error''),
      [IssueUpdate ''a1b2'' (SetStateId ''st-2'')])"
    by (simp add: dispatch_def handleUpdateStatus_def with_issue_def findIssue_def ex_input_def
        ex_ctx_def ex_issue_def ex_down_def find_by_name_def bind_io_def updateIssue_def
        case_tests Let_def)
  from executeTool_total [where P = ascii and T = ex_down and toolName = "''delete_issue''"
      and inp = ex_input and c = ex_ctx and log = "[]"] n
  have a: "executeTool ascii ex_down ''delete_issue'' ex_input ex_ctx [] =
     (Inr (Failure ''Unknown tool: delete_issue''), [])"
    by simp
  from executeTool_total [where P = ascii and T = ex_down and toolName = "''add_comment''"
      and inp = ex_input and c = ex_ctx and log = "[]"] d1
  have b: "executeTool ascii ex_down ''add_comment'' ex_input ex_ctx [] =
     (Inr (Failure (''Tool '' @ [dq] @ ''add_comment'' @ [dq]
        @ '' failed: Cannot read properties of undefined (reading '' @ [CHR 0x27]
        @ ''toUpperCase'' @ [CHR 0x27] @ '')'')), [])"
    by simp
  from executeTool_total [where P = ascii and T = ex_down and toolName = "''update_issue_status''"
      and inp = "ex_input\<lparr>issue_identifier := Some ''yak-1'', status := Some ''done''\<rparr>"
      and c = ex_ctx and log = "[]"] d2
  have c: "executeTool ascii ex_down ''update_issue_status''
       (ex_input\<lparr>issue_identifier := Some ''yak-1'', status := Some ''done''\<rparr>) ex_ctx [] =
     (Inr (Failure (''Tool '' @ [dq] @ ''update_issue_status'' @ [dq]
        @ '' failed: Linear API HTTP 500: Internal Server Error'')),
      [IssueUpdate ''a1b2'' (SetStateId ''st-2'')])"
    by simp
  from n a d1 b d2 c show ?thesis by blast
qed

subsection \<open>Resolution of the issue identifier\<close>

lemma with_issue_none:
  assumes "issue_identifier inp = Some x" and "findIssue P x (issues c) = None"
  shows "with_issue P inp c k log =
    (Inr (Failure (''Issue '' @ x @ '' not found in active issues.'')), log)"
  using assms by (simp add: with_issue_def return_io_def)

lemma with_issue_some:
  assumes "issue_identifier inp = Some x" and "findIssue P x (issues c) = Some issue"
  shows "with_issue P inp c k log = k issue log"
  using assms by (simp add: with_issue_def)

text \<open>
  Claim C2 (issue resolution). \<open>findIssue\<close> puts the requested identifier in upper case
  and looks for the first issue of the snapshot with that identifier: an issue is found
  exactly when some issue has the upper-cased request as its identifier, and the issue
  found is such an issue of the snapshot. The identifiers the tracker gives are in upper
  case; in a snapshot whose identifiers are so, an issue is found exactly when the
  identifier of some issue equals the request up to letter case. When no issue is found,
  each of the six issue handlers returns the error result naming the request as it was
  given, and issues no mutation. When the issue is found, the state name matches a
  workflow state and the tracker accepts the update, set-status issues that one update
  and returns the success result with the state the tracker reports.
\<close>

theorem issue_lookup:
  assumes "issue_identifier inp = Some x"
  shows "(findIssue P x (issues c) \<noteq> None \<longleftrightarrow>
            (\<exists>i \<in> set (issues c). i_identifier i = toUpperCase P x)) \<and>
         (\<forall>issue. findIssue P x (issues c) = Some issue \<longrightarrow>
            issue \<in> set (issues c) \<and> i_identifier issue = toUpperCase P x) \<and>
         ((\<forall>i \<in> set (issues c). toUpperCase P (i_identifier i) = i_identifier i) \<longrightarrow>
            (findIssue P x (issues c) \<noteq> None \<longleftrightarrow>
               (\<exists>i \<in> set (issues c). eq_ignore_case P (i_identifier i) x))) \<and>
         (findIssue P x (issues c) = None \<longrightarrow>
            (\<forall>h \<in> set [handleUpdateStatus P, handleUpdatePriority P, handleAddComment P,
                          handleAddLabel P, handleAssignIssue P, handleUpdateDueDate P].
               h T inp c log = (Inr (Failure (''Issue '' @ x @ '' not found in active issues.'')), log))) \<and>
         (\<forall>issue st updated.
            findIssue P x (issues c) = Some issue \<and>
            find_by_name P s_name (status inp) (states c) = Inr (Some st) \<and>
            issueUpdate T log (i_id issue) (SetStateId (s_id st)) = Inr updated \<longrightarrow>
            handleUpdateStatus P T inp c log =
              (Inr (Success (StatusUpdated (u_identifier updated) (u_title updated) (u_state_name updated))),
               log @ [IssueUpdate (i_id issue) (SetStateId (s_id st))]))"
proof (intro conjI impI allI)
  show "findIssue P x (issues c) \<noteq> None \<longleftrightarrow> (\<exists>i \<in> set (issues c). i_identifier i = toUpperCase P x)"
    by (rule findIssue_iff)
next
  fix issue
  assume "findIssue P x (issues c) = Some issue"
  then have "issue \<in> set (issues c) \<and> i_identifier issue = toUpperCase P x"
    by (rule findIssue_Some)
  then show "issue \<in> set (issues c)" and "i_identifier issue = toUpperCase P x"
    by simp_all
next
  assume up: "\<forall>i \<in> set (issues c). toUpperCase P (i_identifier i) = i_identifier i"
  then have "(\<exists>i \<in> set (issues c). i_identifier i = toUpperCase P x) \<longleftrightarrow>
             (\<exists>i \<in> set (issues c). toUpperCase P (i_identifier i) = toUpperCase P x)"
    by auto
  then show "findIssue P x (issues c) \<noteq> None \<longleftrightarrow>
      (\<exists>i \<in> set (issues c). eq_ignore_case P (i_identifier i) x)"
    by (simp only: findIssue_iff eq_ignore_case_def)
next
  assume "findIssue P x (issues c) = None"
  with assms show "\<forall>h \<in> set [handleUpdateStatus P, handleUpdatePriority P, handleAddComment P,
                          handleAddLabel P, handleAssignIssue P, handleUpdateDueDate P].
               h T inp c log = (Inr (Failure (''Issue '' @ x @ '' not found in active issues.'')), log)"
    by (simp add: handleUpdateStatus_def handleUpdatePriority_def handleAddComment_def
        handleAddLabel_def handleAssignIssue_def handleUpdateDueDate_def with_issue_none)
next
  fix issue st updated
  assume "findIssue P x (issues c) = Some issue \<and>
            find_by_name P s_name (status inp) (states c) = Inr (Some st) \<and>
            issueUpdate T log (i_id issue) (SetStateId (s_id st)) = Inr updated"
  with assms show "handleUpdateStatus P T inp c log =
              (Inr (Success (StatusUpdated (u_identifier updated) (u_title updated) (u_state_name updated))),
               log @ [IssueUpdate (i_id issue) (SetStateId (s_id st))])"
    by (simp add: handleUpdateStatus_def with_issue_some bind_io_def updateIssue_def return_io_def)
qed

theorem issue_lookup_witness:
  "list_all (\<lambda>i. toUpperCase ascii (i_identifier i) = i_identifier i) (issues ex_ctx) \<and>
   (\<exists>i \<in> set (issues ex_ctx). eq_ignore_case ascii (i_identifier i) ''yak-1'') \<and>
   findIssue ascii ''yak-1'' (issues ex_ctx) = Some ex_issue \<and>
   handleUpdateStatus ascii ex_tracker
       (ex_input\<lparr>issue_identifier := Some ''yak-1'', status := Some ''done''\<rparr>) ex_ctx [] =
     (Inr (Success (StatusUpdated ''YAK-1'' ''Fix login'' ''Done'')),
      [IssueUpdate ''a1b2'' (SetStateId ''st-2'')]) \<and>
   \<not> (\<exists>i \<in> set (issues ex_ctx). eq_ignore_case ascii (i_identifier i) ''yak-2'') \<and>
   findIssue ascii ''yak-2'' (issues ex_ctx) = None \<and>
   handleUpdateStatus ascii ex_tracker
       (ex_input\<lparr>issue_identifier := Some ''yak-2'', status := Some ''done''\<rparr>) ex_ctx [] =
     (Inr (Failure ''Issue yak-2 not found in active issues.''), [])"
proof -
  let ?inp1 = "ex_input\<lparr>issue_identifier := Some ''yak-1'', status := Some ''done''\<rparr>"
  let ?inp2 = "ex_input\<lparr>issue_identifier := Some ''yak-2'', status := Some ''done''\<rparr>"
  let ?st = "\<lparr>s_id = ''st-2'', s_name = ''Done'', s_type = ''completed''\<rparr>"
  have i1: "issue_identifier ?inp1 = Some ''yak-1''" and i2: "issue_identifier ?inp2 = Some ''yak-2''"
    by simp_all
  have up: "\<forall>i \<in> set (issues ex_ctx). toUpperCase ascii (i_identifier i) = i_identifier i"
    by (simp add: ex_ctx_def ex_issue_def case_tests)
  have f1: "findIssue ascii ''yak-1'' (issues ex_ctx) = Some ex_issue"
    by (simp add: findIssue_def Let_def ex_ctx_def ex_issue_def case_tests)
  have f2: "findIssue ascii ''yak-2'' (issues ex_ctx) = None"
    by (simp add: findIssue_def Let_def ex_ctx_def ex_issue_def case_tests)
  have st: "find_by_name ascii s_name (status ?inp1) (states ex_ctx) = Inr (Some ?st)"
    by (simp add: find_by_name_def ex_ctx_def case_tests)
  have rp: "issueUpdate ex_tracker [] (i_id ex_issue) (SetStateId (s_id ?st)) =
      Inr \<lparr>u_id = ''a1b2'', u_identifier = ''YAK-1'', u_title = ''Fix login'', u_dueDate = None,
           u_state_name = ''Done'', u_priority = 2, u_priorityLabel = ''High'',
           u_assignee_name = None, u_label_names = [''lb-1''], u_project_name = None\<rparr>"
    by (simp add: ex_tracker_def ex_issue_def)
  note t1 = issue_lookup [OF i1, where c = ex_ctx and P = ascii and T = ex_tracker and log = "[]"]
  note t2 = issue_lookup [OF i2, where c = ex_ctx and P = ascii and T = ex_tracker and log = "[]"]
  from t1 up f1 have a: "\<exists>i \<in> set (issues ex_ctx). eq_ignore_case ascii (i_identifier i) ''yak-1''"
    by simp
  from t1 f1 st rp have b: "handleUpdateStatus ascii ex_tracker ?inp1 ex_ctx [] =
     (Inr (Success (StatusUpdated ''YAK-1'' ''Fix login'' ''Done'')),
      [IssueUpdate ''a1b2'' (SetStateId ''st-2'')])"
    by (simp add: ex_issue_def)
  from t2 up f2 have n: "\<not> (\<exists>i \<in> set (issues ex_ctx). eq_ignore_case ascii (i_identifier i) ''yak-2'')"
    by simp
  from t2 f2 have c: "handleUpdateStatus ascii ex_tracker ?inp2 ex_ctx [] =
     (Inr (Failure ''Issue yak-2 not found in active issues.''), [])"
    by simp
  from up have up': "list_all (\<lambda>i. toUpperCase ascii (i_identifier i) = i_identifier i) (issues ex_ctx)"
    by (simp add: list_all_iff)
  from up' a f1 b n f2 c show ?thesis by blast
qed

subsection \<open>Adding a label\<close>

lemma find_map_preserving:
  assumes "\<And>x. P (f x) = P x"
  shows "find P (map f xs) = map_option f (find P xs)"
  by (induction xs) (simp_all add: assms)

lemma findIssue_label_applied:
  assumes "findIssue P x (issues c) = Some issue"
  shows "findIssue P x (issues (label_applied c issue l)) = Some (issue\<lparr>i_labels := i_labels issue @ [l]\<rparr>)"
proof -
  let ?f = "\<lambda>i. if i_id i = i_id issue then i\<lparr>i_labels := i_labels i @ [l]\<rparr> else i"
  have "find (\<lambda>i. i_identifier i = toUpperCase P x) (map ?f (issues c)) =
        map_option ?f (find (\<lambda>i. i_identifier i = toUpperCase P x) (issues c))"
    by (rule find_map_preserving) simp
  with assms show ?thesis by (simp add: findIssue_def label_applied_def Let_def)
qed

lemma find_append_case:
  "find P (xs @ ys) = (case find P xs of None \<Rightarrow> find P ys | Some x \<Rightarrow> Some x)"
  by (induction xs) simp_all

lemma find_or_create_cases:
  assumes "find_or_create_label P T inp c log = (Inr l, log1)"
  shows "(find_by_name P l_name (label_name inp) (labels c) = Inr (Some l) \<and> log1 = log) \<or>
         (find_by_name P l_name (label_name inp) (labels c) = Inr None \<and>
          issueLabelCreate T log (label_name inp) (teamId c) = Inr l \<and>
          log1 = log @ [IssueLabelCreate (label_name inp) (teamId c)])"
  using assms
  by (auto simp: find_or_create_label_def throw_io_def return_io_def createLabel_def
      split: sum.splits option.splits)

lemma find_label_applied:
  assumes "find_or_create_label P T inp c log = (Inr l, log1)"
    and "label_name inp = Some wanted" and "toLowerCase P (l_name l) = toLowerCase P wanted"
  shows "find_by_name P l_name (label_name inp) (labels (label_applied c issue l)) = Inr (Some l)"
proof -
  let ?P = "\<lambda>x. toLowerCase P (l_name x) = toLowerCase P wanted"
  from find_or_create_cases [OF assms(1)]
  consider (found) "find ?P (labels c) = Some l" | (created) "find ?P (labels c) = None"
    by (auto simp: find_by_name_def assms(2))
  then show ?thesis
  proof cases
    case found
    then have "l \<in> set (labels c)" by (auto simp: find_Some_iff)
    with found show ?thesis by (simp add: label_applied_def find_by_name_def assms(2))
  next
    case created
    then have "l \<notin> set (labels c)" using assms(3) by (auto simp: find_None_iff)
    with created assms(3) show ?thesis
      by (simp add: label_applied_def find_by_name_def assms(2) find_append_case)
  qed
qed

text \<open>
  Claim C8 (label idempotence). The issue is found and the label is resolved to \<open>l\<close>,
  from the catalogue or by creating it. When the id of \<open>l\<close> is among the ids of the
  issue's labels, the operation returns success and issues no update. Otherwise it issues
  one update whose label ids are the issue's current ids followed by the id of \<open>l\<close>, so
  that this id occurs in them exactly once, and returns success when the tracker accepts
  the update. Invoked again with the same label name in the snapshot in which the tracker
  has applied that update, the operation finds the label on the issue, returns success
  and issues nothing: the label stays on the issue once.
\<close>

theorem add_label_idempotent:
  assumes "issue_identifier inp = Some x" and "findIssue P x (issues c) = Some issue"
    and "find_or_create_label P T inp c log = (Inr l, log1)"
  shows "(l_id l \<in> set (map l_id (i_labels issue)) \<longrightarrow>
            handleAddLabel P T inp c log =
              (Inr (Success (LabelAlready
                 (i_identifier issue @ '' already has label '' @ [dq] @ l_name l @ [dq]))), log1)) \<and>
         (l_id l \<notin> set (map l_id (i_labels issue)) \<longrightarrow>
            snd (handleAddLabel P T inp c log) =
              log1 @ [IssueUpdate (i_id issue) (SetLabelIds (map l_id (i_labels issue) @ [l_id l]))] \<and>
            count_list (map l_id (i_labels issue) @ [l_id l]) (l_id l) = 1 \<and>
            (\<forall>updated.
               issueUpdate T log1 (i_id issue) (SetLabelIds (map l_id (i_labels issue) @ [l_id l]))
                 = Inr updated \<longrightarrow>
               fst (handleAddLabel P T inp c log) =
                 Inr (Success (LabelAdded (u_identifier updated) (u_label_names updated))))) \<and>
         (\<forall>wanted log2.
            label_name inp = Some wanted \<and> toLowerCase P (l_name l) = toLowerCase P wanted \<longrightarrow>
            handleAddLabel P T inp (label_applied c issue l) log2 =
              (Inr (Success (LabelAlready
                 (i_identifier issue @ '' already has label '' @ [dq] @ l_name l @ [dq]))), log2))"
proof (intro conjI impI allI)
  assume "l_id l \<in> set (map l_id (i_labels issue))"
  with assms show "handleAddLabel P T inp c log =
              (Inr (Success (LabelAlready
                 (i_identifier issue @ '' already has label '' @ [dq] @ l_name l @ [dq]))), log1)"
    by (simp add: handleAddLabel_def with_issue_some bind_io_def return_io_def Let_def)
next
  assume n: "l_id l \<notin> set (map l_id (i_labels issue))"
  with assms show "snd (handleAddLabel P T inp c log) =
              log1 @ [IssueUpdate (i_id issue) (SetLabelIds (map l_id (i_labels issue) @ [l_id l]))]"
    by (simp add: handleAddLabel_def with_issue_some bind_io_def return_io_def Let_def updateIssue_def
        split: sum.splits)
  from n show "count_list (map l_id (i_labels issue) @ [l_id l]) (l_id l) = 1"
    by (simp add: count_list_0_iff)
  fix updated
  assume "issueUpdate T log1 (i_id issue) (SetLabelIds (map l_id (i_labels issue) @ [l_id l]))
                 = Inr updated"
  with assms n show "fst (handleAddLabel P T inp c log) =
                 Inr (Success (LabelAdded (u_identifier updated) (u_label_names updated)))"
    by (simp add: handleAddLabel_def with_issue_some bind_io_def return_io_def Let_def updateIssue_def)
next
  fix wanted log2
  assume w: "label_name inp = Some wanted \<and> toLowerCase P (l_name l) = toLowerCase P wanted"
  have f: "findIssue P x (issues (label_applied c issue l)) = Some (issue\<lparr>i_labels := i_labels issue @ [l]\<rparr>)"
    using assms(2) by (rule findIssue_label_applied)
  have g: "find_by_name P l_name (label_name inp) (labels (label_applied c issue l)) = Inr (Some l)"
  proof -
    from w have "label_name inp = Some wanted" and "toLowerCase P (l_name l) = toLowerCase P wanted"
      by simp_all
    with assms(3) show ?thesis by (rule find_label_applied)
  qed
  show "handleAddLabel P T inp (label_applied c issue l) log2 =
              (Inr (Success (LabelAlready
                 (i_identifier issue @ '' already has label '' @ [dq] @ l_name l @ [dq]))), log2)"
    by (simp add: handleAddLabel_def with_issue_some [OF assms(1) f] find_or_create_label_def g
        bind_io_def return_io_def Let_def)
qed

theorem add_label_idempotent_witness:
  "handleAddLabel ascii ex_tracker (ex_input\<lparr>issue_identifier := Some ''yak-1'', label_name := Some ''BUG''\<rparr>)
     ex_ctx [] =
     (Inr (Success (LabelAlready (''YAK-1 already has label '' @ [dq] @ ''bug'' @ [dq]))), []) \<and>
   handleAddLabel ascii ex_tracker
     (ex_input\<lparr>issue_identifier := Some ''yak-1'', label_name := Some ''blocked''\<rparr>) ex_ctx [] =
     (Inr (Success (LabelAdded ''YAK-1'' [''lb-1'', ''lb-2''])),
      [IssueUpdate ''a1b2'' (SetLabelIds [''lb-1'', ''lb-2''])]) \<and>
   handleAddLabel ascii ex_tracker
     (ex_input\<lparr>issue_identifier := Some ''yak-1'', label_name := Some ''blocked''\<rparr>)
     (label_applied ex_ctx ex_issue \<lparr>l_id = ''lb-2'', l_name = ''Blocked''\<rparr>)
     [IssueUpdate ''a1b2'' (SetLabelIds [''lb-1'', ''lb-2''])] =
     (Inr (Success (LabelAlready (''YAK-1 already has label '' @ [dq] @ ''Blocked'' @ [dq]))),
      [IssueUpdate ''a1b2'' (SetLabelIds [''lb-1'', ''lb-2''])])"
proof -
  let ?inp1 = "ex_input\<lparr>issue_identifier := Some ''yak-1'', label_name := Some ''BUG''\<rparr>"
  let ?inp2 = "ex_input\<lparr>issue_identifier := Some ''yak-1'', label_name := Some ''blocked''\<rparr>"
  let ?bug = "\<lparr>l_id = ''lb-1'', l_name = ''bug''\<rparr>"
  let ?blocked = "\<lparr>l_id = ''lb-2'', l_name = ''Blocked''\<rparr>"
  have i1: "issue_identifier ?inp1 = Some ''yak-1''" and i2: "issue_identifier ?inp2 = Some ''yak-1''"
    by simp_all
  have f: "findIssue ascii ''yak-1'' (issues ex_ctx) = Some ex_issue"
    by (simp add: findIssue_def Let_def ex_ctx_def ex_issue_def case_tests)
  have l1: "find_or_create_label ascii ex_tracker ?inp1 ex_ctx [] = (Inr ?bug, [])"
    by (simp add: find_or_create_label_def find_by_name_def ex_ctx_def case_tests return_io_def)
  have l2: "find_or_create_label ascii ex_tracker ?inp2 ex_ctx [] = (Inr ?blocked, [])"
    by (simp add: find_or_create_label_def find_by_name_def ex_ctx_def case_tests return_io_def)
  have rp: "issueUpdate ex_tracker [] (i_id ex_issue) (SetLabelIds (map l_id (i_labels ex_issue) @ [l_id ?blocked])) =
      Inr \<lparr>u_id = ''a1b2'', u_identifier = ''YAK-1'', u_title = ''Fix login'', u_dueDate = None,
           u_state_name = ''Todo'', u_priority = 2, u_priorityLabel = ''High'',
           u_assignee_name = None, u_label_names = [''lb-1'', ''lb-2''], u_project_name = None\<rparr>"
    by (simp add: ex_tracker_def ex_issue_def)
  note t1 = add_label_idempotent [OF i1 f l1]
  note t2 = add_label_idempotent [OF i2 f l2]
  from t1 have a: "handleAddLabel ascii ex_tracker ?inp1 ex_ctx [] =
     (Inr (Success (LabelAlready (''YAK-1 already has label '' @ [dq] @ ''bug'' @ [dq]))), [])"
    by (simp add: ex_issue_def)
  from t2 rp have "fst (handleAddLabel ascii ex_tracker ?inp2 ex_ctx []) =
        Inr (Success (LabelAdded ''YAK-1'' [''lb-1'', ''lb-2''])) \<and>
      snd (handleAddLabel ascii ex_tracker ?inp2 ex_ctx []) =
        [IssueUpdate ''a1b2'' (SetLabelIds [''lb-1'', ''lb-2''])]"
    by (simp add: ex_issue_def)
  then have b: "handleAddLabel ascii ex_tracker ?inp2 ex_ctx [] =
     (Inr (Success (LabelAdded ''YAK-1'' [''lb-1'', ''lb-2''])),
      [IssueUpdate ''a1b2'' (SetLabelIds [''lb-1'', ''lb-2''])])"
    by (simp add: prod_eq_iff)
  from t2 have c: "handleAddLabel ascii ex_tracker ?inp2 (label_applied ex_ctx ex_issue ?blocked)
     [IssueUpdate ''a1b2'' (SetLabelIds [''lb-1'', ''lb-2''])] =
     (Inr (Success (LabelAlready (''YAK-1 already has label '' @ [dq] @ ''Blocked'' @ [dq]))),
      [IssueUpdate ''a1b2'' (SetLabelIds [''lb-1'', ''lb-2''])])"
    by (simp add: ex_issue_def case_tests)
  from a b c show ?thesis by blast
qed

subsection \<open>Creating an issue\<close>

lemma create_subtasks_calls:
  "\<exists>calls. snd (create_subtasks T c parent pid subs acc log) = log @ calls \<and>
     (\<forall>call \<in> set calls. \<exists>ci. call = IssueCreate ci \<and>
        ci_projectId ci = (if truthy pid then pid else None) \<and> ci_stateId ci = None \<and>
        ci_parentId ci = Some (c_id parent))"
proof (induction subs arbitrary: acc log)
  case Nil
  then show ?case by (simp add: return_io_def)
next
  case (Cons sub subs)
  let ?ci = "\<lparr>ci_teamId = teamId c, ci_title = sub_title sub,
         ci_description = (if truthy (sub_description sub) then sub_description sub else None),
         ci_priority = sub_priority sub,
         ci_dueDate = (if truthy (sub_due_date sub) then sub_due_date sub else None),
         ci_projectId = (if truthy pid then pid else None),
         ci_stateId = None,
         ci_parentId = Some (c_id parent)\<rparr>"
  show ?case
  proof (cases "issueCreate T log ?ci")
    case (Inl e)
    then have "snd (create_subtasks T c parent pid (sub # subs) acc log) = log @ [IssueCreate ?ci]"
      by (simp add: Let_def bind_io_def createIssue_def)
    then show ?thesis by simp
  next
    case (Inr subIssue)
    let ?acc = "acc @ [\<lparr>sr_issue = c_identifier subIssue, sr_title = c_title subIssue,
                 sr_due_date = (if truthy (c_dueDate subIssue) then c_dueDate subIssue else None)\<rparr>]"
    from Cons.IH [of ?acc "log @ [IssueCreate ?ci]"]
    obtain calls where
      calls: "snd (create_subtasks T c parent pid subs ?acc (log @ [IssueCreate ?ci])) =
                (log @ [IssueCreate ?ci]) @ calls"
      and all: "\<forall>call \<in> set calls. \<exists>ci. call = IssueCreate ci \<and>
        ci_projectId ci = (if truthy pid then pid else None) \<and> ci_stateId ci = None \<and>
        ci_parentId ci = Some (c_id parent)"
      by blast
    have "snd (create_subtasks T c parent pid (sub # subs) acc log) = log @ (IssueCreate ?ci # calls)"
      using Inr calls by (simp add: Let_def bind_io_def createIssue_def)
    moreover have "\<forall>call \<in> set (IssueCreate ?ci # calls). \<exists>ci. call = IssueCreate ci \<and>
        ci_projectId ci = (if truthy pid then pid else None) \<and> ci_stateId ci = None \<and>
        ci_parentId ci = Some (c_id parent)"
      using all by simp
    ultimately show ?thesis by blast
  qed
qed

lemma create_subtasks_returns:
  assumes "\<forall>lg ci. \<exists>r. issueCreate T lg ci = Inr r"
  shows "\<exists>rs log'. create_subtasks T c parent pid subs acc log = (Inr rs, log')"
proof (induction subs arbitrary: acc log)
  case Nil
  then show ?case by (simp add: return_io_def)
next
  case (Cons sub subs)
  let ?ci = "\<lparr>ci_teamId = teamId c, ci_title = sub_title sub,
         ci_description = (if truthy (sub_description sub) then sub_description sub else None),
         ci_priority = sub_priority sub,
         ci_dueDate = (if truthy (sub_due_date sub) then sub_due_date sub else None),
         ci_projectId = (if truthy pid then pid else None),
         ci_stateId = None,
         ci_parentId = Some (c_id parent)\<rparr>"
  from assms obtain r where r: "issueCreate T log ?ci = Inr r" by blast
  from Cons.IH show ?case by (simp add: Let_def bind_io_def createIssue_def r)
qed

lemma snd_bind_return: "snd (bind_io m (\<lambda>x. return_io (f x)) log) = snd (m log)"
  by (cases "m log") (auto simp: bind_io_def return_io_def split: sum.splits)


lemma handleCreateIssue_calls:
  "\<exists>ci calls. snd (handleCreateIssue P T inp c log) = log @ IssueCreate ci # calls \<and>
     ci_teamId ci = teamId c \<and> ci_title ci = in_title inp \<and> ci_priority ci = in_priority inp \<and>
     ci_parentId ci = None \<and>
     ci_projectId ci =
       (case project_name inp of None \<Rightarrow> None
        | Some wanted \<Rightarrow> if wanted = [] then None
            else map_option p_id (find (\<lambda>p. str_includes (toLowerCase P (p_name p)) (toLowerCase P wanted)) (projects c))) \<and>
     ci_stateId ci =
       (case status inp of None \<Rightarrow> None
        | Some wanted \<Rightarrow> if wanted = [] then None
            else map_option s_id (find (\<lambda>s. toLowerCase P (s_name s) = toLowerCase P wanted) (states c))) \<and>
     (\<forall>call \<in> set calls. \<exists>si. call = IssueCreate si \<and> ci_stateId si = None \<and>
        ci_parentId si \<noteq> None \<and>
        ci_projectId si = (if truthy (ci_projectId ci) then ci_projectId ci else None)) \<and>
     ((\<forall>lg ci. \<exists>r. issueCreate T lg ci = Inr r) \<longrightarrow>
        (\<exists>parent sr. issueCreate T log ci = Inr parent \<and>
           fst (handleCreateIssue P T inp c log) =
             Inr (Success (IssueCreated (c_identifier parent) (c_title parent) (c_url parent)
               (if truthy (c_dueDate parent) then c_dueDate parent else None) sr))))"
proof -
  define project where "project =
            (case project_name inp of
               None \<Rightarrow> None
             | Some wanted \<Rightarrow>
                 if wanted = [] then None
                 else find (\<lambda>p. str_includes (toLowerCase P (p_name p)) (toLowerCase P wanted))
                        (projects c))"
  define st where "st =
            (case status inp of
               None \<Rightarrow> None
             | Some wanted \<Rightarrow>
                 if wanted = [] then None
                 else find (\<lambda>s. toLowerCase P (s_name s) = toLowerCase P wanted) (states c))"
  define ci where "ci =
            \<lparr>ci_teamId = teamId c,
             ci_title = in_title inp,
             ci_description = (if truthy (in_description inp) then in_description inp else None),
             ci_priority = in_priority inp,
             ci_dueDate = (if truthy (due_date inp) then due_date inp else None),
             ci_projectId = map_option p_id project,
             ci_stateId = map_option s_id st,
             ci_parentId = None\<rparr>"
  have fl: "ci_teamId ci = teamId c" "ci_title ci = in_title inp" "ci_priority ci = in_priority inp"
    "ci_parentId ci = None"
    by (simp_all add: ci_def)
  have pj: "ci_projectId ci = (case project_name inp of None \<Rightarrow> None
        | Some wanted \<Rightarrow> if wanted = [] then None
            else map_option p_id (find (\<lambda>p. str_includes (toLowerCase P (p_name p)) (toLowerCase P wanted)) (projects c)))"
    by (simp add: ci_def project_def split: option.splits)
  have sj: "ci_stateId ci = (case status inp of None \<Rightarrow> None
        | Some wanted \<Rightarrow> if wanted = [] then None
            else map_option s_id (find (\<lambda>s. toLowerCase P (s_name s) = toLowerCase P wanted) (states c)))"
    by (simp add: ci_def st_def split: option.splits)
  have unfold: "handleCreateIssue P T inp c log =
     bind_io (createIssue T ci) (\<lambda>parentIssue.
           let due = (if truthy (c_dueDate parentIssue) then c_dueDate parentIssue else None) in
           case subtasks inp of
             None \<Rightarrow>
               return_io (Success (IssueCreated (c_identifier parentIssue) (c_title parentIssue)
                 (c_url parentIssue) due None))
           | Some subs \<Rightarrow>
               if subs = [] then
                 return_io (Success (IssueCreated (c_identifier parentIssue) (c_title parentIssue)
                   (c_url parentIssue) due None))
               else
                 bind_io (create_subtasks T c parentIssue (map_option p_id project) subs []) (\<lambda>subtaskResults.
                   return_io (Success (IssueCreated (c_identifier parentIssue)
                     (c_title parentIssue) (c_url parentIssue) due (Some subtaskResults))))) log"
    by (simp only: handleCreateIssue_def Let_def ci_def project_def st_def)
  let ?ok = "\<forall>lg ci. \<exists>r. issueCreate T lg ci = Inr r"
  let ?res = "\<lambda>ci. ?ok \<longrightarrow>
        (\<exists>parent sr. issueCreate T log ci = Inr parent \<and>
           fst (handleCreateIssue P T inp c log) =
             Inr (Success (IssueCreated (c_identifier parent) (c_title parent) (c_url parent)
               (if truthy (c_dueDate parent) then c_dueDate parent else None) sr)))"
  let ?subs = "\<lambda>ci calls. \<forall>call \<in> set calls. \<exists>si. call = IssueCreate si \<and> ci_stateId si = None \<and>
        ci_parentId si \<noteq> None \<and>
        ci_projectId si = (if truthy (ci_projectId ci) then ci_projectId ci else None)"
  have "\<exists>calls. snd (handleCreateIssue P T inp c log) = log @ IssueCreate ci # calls \<and>
          ?subs ci calls \<and> ?res ci"
  proof (cases "issueCreate T log ci")
    case (Inl e)
    then have "snd (handleCreateIssue P T inp c log) = log @ IssueCreate ci # []"
      by (simp add: unfold bind_io_def createIssue_def)
    moreover have "?res ci"
    proof
      assume ?ok
      then obtain r where "issueCreate T log ci = Inr r" by blast
      with Inl show "\<exists>parent sr. issueCreate T log ci = Inr parent \<and>
           fst (handleCreateIssue P T inp c log) =
             Inr (Success (IssueCreated (c_identifier parent) (c_title parent) (c_url parent)
               (if truthy (c_dueDate parent) then c_dueDate parent else None) sr))"
        by simp
    qed
    ultimately show ?thesis by fastforce
  next
    case (Inr parent)
    show ?thesis
    proof (cases "\<exists>subs. subtasks inp = Some subs \<and> subs \<noteq> []")
      case False
      then have "handleCreateIssue P T inp c log =
          (Inr (Success (IssueCreated (c_identifier parent) (c_title parent) (c_url parent)
               (if truthy (c_dueDate parent) then c_dueDate parent else None) None)),
           log @ [IssueCreate ci])"
        using Inr by (auto simp: unfold bind_io_def createIssue_def return_io_def Let_def split: option.splits)
      with Inr show ?thesis by fastforce
    next
      case True
      then obtain subs where subs: "subtasks inp = Some subs" "subs \<noteq> []" by blast
      from create_subtasks_calls [of T c parent "map_option p_id project" subs "[]" "log @ [IssueCreate ci]"]
      obtain calls where
        calls: "snd (create_subtasks T c parent (map_option p_id project) subs [] (log @ [IssueCreate ci])) =
                  (log @ [IssueCreate ci]) @ calls"
        and all: "\<forall>call \<in> set calls. \<exists>si. call = IssueCreate si \<and>
          ci_projectId si = (if truthy (map_option p_id project) then map_option p_id project else None) \<and>
          ci_stateId si = None \<and> ci_parentId si = Some (c_id parent)"
        by blast
      have run: "handleCreateIssue P T inp c log =
                bind_io (create_subtasks T c parent (map_option p_id project) subs [])
                  (\<lambda>subtaskResults. return_io (Success (IssueCreated (c_identifier parent)
                     (c_title parent) (c_url parent)
                     (if truthy (c_dueDate parent) then c_dueDate parent else None)
                     (Some subtaskResults)))) (log @ [IssueCreate ci])"
        using Inr subs by (simp add: unfold bind_io_def [of "createIssue T ci"] createIssue_def Let_def)
      then have s: "snd (handleCreateIssue P T inp c log) = log @ IssueCreate ci # calls"
        using calls by (simp add: snd_bind_return)
      have p: "ci_projectId ci = map_option p_id project" by (simp add: ci_def)
      from all p have a: "?subs ci calls" by fastforce
      have "?res ci"
      proof
        assume ok: ?ok
        from create_subtasks_returns [OF ok, of c parent "map_option p_id project" subs "[]" "log @ [IssueCreate ci]"]
        obtain rs log' where
          rs: "create_subtasks T c parent (map_option p_id project) subs [] (log @ [IssueCreate ci]) = (Inr rs, log')"
          by blast
        have "fst (handleCreateIssue P T inp c log) =
             Inr (Success (IssueCreated (c_identifier parent) (c_title parent) (c_url parent)
               (if truthy (c_dueDate parent) then c_dueDate parent else None) (Some rs)))"
          by (simp add: run rs bind_io_def return_io_def)
        with Inr show "\<exists>parent sr. issueCreate T log ci = Inr parent \<and>
           fst (handleCreateIssue P T inp c log) =
             Inr (Success (IssueCreated (c_identifier parent) (c_title parent) (c_url parent)
               (if truthy (c_dueDate parent) then c_dueDate parent else None) sr))"
          by blast
      qed
      with s a show ?thesis by blast
    qed
  qed
  with fl pj sj show ?thesis by blast
qed

text \<open>
  Claim C10 (unresolved optional references of create-issue). The first mutation the
  operation issues is the creation of the issue itself: for the team of the snapshot, with
  the title and the priority of the input and no parent; every later mutation creates a
  subtask of it, with no state id, and with the project of the parent or none. When the
  project name is contained in no project name, letter case aside, the issue is created
  without a project, and so is every subtask; mutations and result are exactly those of
  the input without a project name. When the status equals no state name, letter case
  aside, the issue is created without a state id (the tracker then gives it the team's
  default state), and mutations and result are exactly those of the input without a
  status. With a tracker that accepts each creation the result is a success, which
  carries the identifier, title, URL and due date the tracker reported for the created
  issue, and the subtasks created: nothing in it tells whether a reference was resolved.
\<close>

theorem create_issue_drops_unresolved:
  "\<exists>ci calls.
     issued log (handleCreateIssue P T inp c log) = IssueCreate ci # calls \<and>
     ci_teamId ci = teamId c \<and> ci_title ci = in_title inp \<and> ci_priority ci = in_priority inp \<and>
     ci_parentId ci = None \<and>
     (\<forall>call \<in> set calls. \<exists>si. call = IssueCreate si \<and> ci_parentId si \<noteq> None \<and>
        ci_stateId si = None \<and> (ci_projectId si = None \<or> ci_projectId si = ci_projectId ci)) \<and>
     (project_name inp = Some pn \<and>
      (\<forall>p \<in> set (projects c). \<not> str_includes (toLowerCase P (p_name p)) (toLowerCase P pn)) \<longrightarrow>
        handleCreateIssue P T inp c log = handleCreateIssue P T (inp\<lparr>project_name := None\<rparr>) c log \<and>
        ci_projectId ci = None \<and>
        (\<forall>call \<in> set (issued log (handleCreateIssue P T inp c log)).
           \<exists>si. call = IssueCreate si \<and> ci_projectId si = None)) \<and>
     (status inp = Some sn \<and> (\<forall>s \<in> set (states c). toLowerCase P (s_name s) \<noteq> toLowerCase P sn) \<longrightarrow>
        handleCreateIssue P T inp c log = handleCreateIssue P T (inp\<lparr>status := None\<rparr>) c log \<and>
        ci_stateId ci = None \<and>
        (\<forall>call \<in> set (issued log (handleCreateIssue P T inp c log)).
           \<exists>si. call = IssueCreate si \<and> ci_stateId si = None)) \<and>
     ((\<forall>lg ci. \<exists>r. issueCreate T lg ci = Inr r) \<longrightarrow>
        (\<exists>parent sr. issueCreate T log ci = Inr parent \<and>
           fst (handleCreateIssue P T inp c log) =
             Inr (Success (IssueCreated (c_identifier parent) (c_title parent) (c_url parent)
               (if truthy (c_dueDate parent) then c_dueDate parent else None) sr))))"
proof -
  from handleCreateIssue_calls [of P T inp c log] obtain ci calls where
    calls: "snd (handleCreateIssue P T inp c log) = log @ IssueCreate ci # calls"
    and fl: "ci_teamId ci = teamId c" "ci_title ci = in_title inp" "ci_priority ci = in_priority inp"
      "ci_parentId ci = None"
    and pj: "ci_projectId ci =
       (case project_name inp of None \<Rightarrow> None
        | Some wanted \<Rightarrow> if wanted = [] then None
            else map_option p_id (find (\<lambda>p. str_includes (toLowerCase P (p_name p)) (toLowerCase P wanted)) (projects c)))"
    and sj: "ci_stateId ci =
       (case status inp of None \<Rightarrow> None
        | Some wanted \<Rightarrow> if wanted = [] then None
            else map_option s_id (find (\<lambda>s. toLowerCase P (s_name s) = toLowerCase P wanted) (states c)))"
    and all: "\<forall>call \<in> set calls. \<exists>si. call = IssueCreate si \<and> ci_stateId si = None \<and>
        ci_parentId si \<noteq> None \<and>
        ci_projectId si = (if truthy (ci_projectId ci) then ci_projectId ci else None)"
    and res: "(\<forall>lg ci. \<exists>r. issueCreate T lg ci = Inr r) \<longrightarrow>
        (\<exists>parent sr. issueCreate T log ci = Inr parent \<and>
           fst (handleCreateIssue P T inp c log) =
             Inr (Success (IssueCreated (c_identifier parent) (c_title parent) (c_url parent)
               (if truthy (c_dueDate parent) then c_dueDate parent else None) sr)))"
    by blast
  from calls have iss: "issued log (handleCreateIssue P T inp c log) = IssueCreate ci # calls"
    by (simp add: issued_def)
  have subs: "\<forall>call \<in> set calls. \<exists>si. call = IssueCreate si \<and> ci_parentId si \<noteq> None \<and>
        ci_stateId si = None \<and> (ci_projectId si = None \<or> ci_projectId si = ci_projectId ci)"
  proof
    fix call
    assume "call \<in> set calls"
    with all obtain si where si: "call = IssueCreate si" "ci_stateId si = None" "ci_parentId si \<noteq> None"
      "ci_projectId si = (if truthy (ci_projectId ci) then ci_projectId ci else None)"
      by blast
    from si(4) have "ci_projectId si = None \<or> ci_projectId si = ci_projectId ci"
      by (simp split: if_splits)
    with si(1-3) show "\<exists>si. call = IssueCreate si \<and> ci_parentId si \<noteq> None \<and>
        ci_stateId si = None \<and> (ci_projectId si = None \<or> ci_projectId si = ci_projectId ci)"
      by blast
  qed
  have proj: "project_name inp = Some pn \<and>
      (\<forall>p \<in> set (projects c). \<not> str_includes (toLowerCase P (p_name p)) (toLowerCase P pn)) \<longrightarrow>
        handleCreateIssue P T inp c log = handleCreateIssue P T (inp\<lparr>project_name := None\<rparr>) c log \<and>
        ci_projectId ci = None \<and>
        (\<forall>call \<in> set (issued log (handleCreateIssue P T inp c log)).
           \<exists>si. call = IssueCreate si \<and> ci_projectId si = None)"
  proof (intro impI conjI)
    assume a: "project_name inp = Some pn \<and>
      (\<forall>p \<in> set (projects c). \<not> str_includes (toLowerCase P (p_name p)) (toLowerCase P pn))"
    then have none: "find (\<lambda>p. str_includes (toLowerCase P (p_name p)) (toLowerCase P pn)) (projects c) = None"
      by (simp add: find_None_iff)
    with a show "handleCreateIssue P T inp c log = handleCreateIssue P T (inp\<lparr>project_name := None\<rparr>) c log"
      by (simp add: handleCreateIssue_def)
    from pj a none show p: "ci_projectId ci = None" by simp
    have "\<forall>call \<in> set calls. \<exists>si. call = IssueCreate si \<and> ci_projectId si = None"
    proof
      fix call
      assume "call \<in> set calls"
      with all obtain si where "call = IssueCreate si"
        "ci_projectId si = (if truthy (ci_projectId ci) then ci_projectId ci else None)"
        by blast
      with p show "\<exists>si. call = IssueCreate si \<and> ci_projectId si = None" by simp
    qed
    with p show "\<forall>call \<in> set (issued log (handleCreateIssue P T inp c log)).
           \<exists>si. call = IssueCreate si \<and> ci_projectId si = None"
      by (simp add: iss)
  qed
  have stat: "status inp = Some sn \<and> (\<forall>s \<in> set (states c). toLowerCase P (s_name s) \<noteq> toLowerCase P sn) \<longrightarrow>
        handleCreateIssue P T inp c log = handleCreateIssue P T (inp\<lparr>status := None\<rparr>) c log \<and>
        ci_stateId ci = None \<and>
        (\<forall>call \<in> set (issued log (handleCreateIssue P T inp c log)).
           \<exists>si. call = IssueCreate si \<and> ci_stateId si = None)"
  proof (intro impI conjI)
    assume a: "status inp = Some sn \<and> (\<forall>s \<in> set (states c). toLowerCase P (s_name s) \<noteq> toLowerCase P sn)"
    then have none: "find (\<lambda>s. toLowerCase P (s_name s) = toLowerCase P sn) (states c) = None"
      by (simp add: find_None_iff)
    with a show "handleCreateIssue P T inp c log = handleCreateIssue P T (inp\<lparr>status := None\<rparr>) c log"
      by (simp add: handleCreateIssue_def)
    from sj a none show s: "ci_stateId ci = None" by simp
    from all have "\<forall>call \<in> set calls. \<exists>si. call = IssueCreate si \<and> ci_stateId si = None"
      by blast
    with s show "\<forall>call \<in> set (issued log (handleCreateIssue P T inp c log)).
           \<exists>si. call = IssueCreate si \<and> ci_stateId si = None"
      by (simp add: iss)
  qed
  from iss fl subs proj stat res show ?thesis by blast
qed

theorem create_issue_drops_unresolved_witness:
  "list_all (\<lambda>p. \<not> str_includes (toLowerCase ascii (p_name p)) (toLowerCase ascii ''Mobile App''))
     (projects ex_ctx) \<and>
   list_all (\<lambda>s. toLowerCase ascii (s_name s) \<noteq> toLowerCase ascii ''In Review'') (states ex_ctx) \<and>
   issued [] (handleCreateIssue ascii ex_tracker ex_create ex_ctx []) =
     [IssueCreate
        \<lparr>ci_teamId = Some ''team-1'', ci_title = Some ''Set up staging'', ci_description = None,
         ci_priority = None, ci_dueDate = None, ci_projectId = None, ci_stateId = None,
         ci_parentId = None\<rparr>,
      IssueCreate
        \<lparr>ci_teamId = Some ''team-1'', ci_title = Some ''Provision database'', ci_description = None,
         ci_priority = None, ci_dueDate = None, ci_projectId = None, ci_stateId = None,
         ci_parentId = Some ''c3d4''\<rparr>] \<and>
   handleCreateIssue ascii ex_tracker ex_create ex_ctx [] =
     handleCreateIssue ascii ex_tracker (ex_create\<lparr>project_name := None\<rparr>) ex_ctx [] \<and>
   handleCreateIssue ascii ex_tracker ex_create ex_ctx [] =
     handleCreateIssue ascii ex_tracker (ex_create\<lparr>status := None\<rparr>) ex_ctx [] \<and>
   fst (handleCreateIssue ascii ex_tracker ex_create ex_ctx []) =
     Inr (Success (IssueCreated ''YAK-2'' ''Set up staging'' ''https://linear.app/yak/issue/YAK-2''
       None (Some [\<lparr>sr_issue = ''YAK-2'', sr_title = ''Provision database'', sr_due_date = None\<rparr>])))"
proof -
  have pn: "project_name ex_create = Some ''Mobile App''" and sn: "status ex_create = Some ''In Review''"
    by (simp_all add: ex_create_def ex_input_def)
  have np: "\<forall>p \<in> set (projects ex_ctx).
      \<not> str_includes (toLowerCase ascii (p_name p)) (toLowerCase ascii ''Mobile App'')"
    by (simp add: ex_ctx_def case_tests)
  have ns: "\<forall>s \<in> set (states ex_ctx). toLowerCase ascii (s_name s) \<noteq> toLowerCase ascii ''In Review''"
    by (simp add: ex_ctx_def case_tests)
  have run: "handleCreateIssue ascii ex_tracker ex_create ex_ctx [] =
     (Inr (Success (IssueCreated ''YAK-2'' ''Set up staging'' ''https://linear.app/yak/issue/YAK-2''
        None (Some [\<lparr>sr_issue = ''YAK-2'', sr_title = ''Provision database'', sr_due_date = None\<rparr>]))),
      [IssueCreate
        \<lparr>ci_teamId = Some ''team-1'', ci_title = Some ''Set up staging'', ci_description = None,
         ci_priority = None, ci_dueDate = None, ci_projectId = None, ci_stateId = None,
         ci_parentId = None\<rparr>,
       IssueCreate
        \<lparr>ci_teamId = Some ''team-1'', ci_title = Some ''Provision database'', ci_description = None,
         ci_priority = None, ci_dueDate = None, ci_projectId = None, ci_stateId = None,
         ci_parentId = Some ''c3d4''\<rparr>])"
    by (simp add: handleCreateIssue_def ex_create_def ex_input_def ex_tracker_def ex_ctx_def
        case_tests bind_io_def createIssue_def return_io_def Let_def truthy_def js_str_def)
  from create_issue_drops_unresolved [where inp = ex_create and pn = "''Mobile App''" and c = ex_ctx
      and P = ascii and T = ex_tracker and log = "[]" and sn = "''In Review''"] pn np sn ns
  have a: "handleCreateIssue ascii ex_tracker ex_create ex_ctx [] =
     handleCreateIssue ascii ex_tracker (ex_create\<lparr>project_name := None\<rparr>) ex_ctx []"
    and b: "handleCreateIssue ascii ex_tracker ex_create ex_ctx [] =
     handleCreateIssue ascii ex_tracker (ex_create\<lparr>status := None\<rparr>) ex_ctx []"
    by blast+
  from run have i: "issued [] (handleCreateIssue ascii ex_tracker ex_create ex_ctx []) =
     [IssueCreate
        \<lparr>ci_teamId = Some ''team-1'', ci_title = Some ''Set up staging'', ci_description = None,
         ci_priority = None, ci_dueDate = None, ci_projectId = None, ci_stateId = None,
         ci_parentId = None\<rparr>,
      IssueCreate
        \<lparr>ci_teamId = Some ''team-1'', ci_title = Some ''Provision database'', ci_description = None,
         ci_priority = None, ci_dueDate = None, ci_projectId = None, ci_stateId = None,
         ci_parentId = Some ''c3d4''\<rparr>]"
    by (simp add: issued_def)
  from run have r: "fst (handleCreateIssue ascii ex_tracker ex_create ex_ctx []) =
     Inr (Success (IssueCreated ''YAK-2'' ''Set up staging'' ''https://linear.app/yak/issue/YAK-2''
       None (Some [\<lparr>sr_issue = ''YAK-2'', sr_title = ''Provision database'', sr_due_date = None\<rparr>])))"
    by simp
  from np ns have
    "list_all (\<lambda>p. \<not> str_includes (toLowerCase ascii (p_name p)) (toLowerCase ascii ''Mobile App''))
       (projects ex_ctx)"
    "list_all (\<lambda>s. toLowerCase ascii (s_name s) \<noteq> toLowerCase ascii ''In Review'') (states ex_ctx)"
    by (simp_all add: list_all_iff)
  with i a b r show ?thesis by blast
qed

section \<open>The agent loop terminates\<close>


lemma executeTool_returns: "\<exists>r log'. executeTool P T toolName inp c log = (Inr r, log')"
  by (cases "dispatch P T toolName inp c log") (auto simp: executeTool_def split: sum.splits)

lemma run_blocks_returns: "\<exists>rs log'. run_blocks P T c blks acc log = (Inr rs, log')"
proof (induction blks arbitrary: acc log)
  case Nil
  then show ?case by (simp add: return_io_def)
next
  case (Cons b blks)
  show ?case
  proof (cases b)
    case (TextBlock t)
    with Cons.IH show ?thesis by simp
  next
    case (ToolUseBlock bid name inp)
    obtain r log1 where e: "executeTool P T name inp c log = (Inr r, log1)"
      using executeTool_returns by blast
    from Cons.IH [of "acc @ [\<lparr>tool_use_id = bid, tr_content = r\<rparr>]" log1]
    show ?thesis by (simp add: ToolUseBlock bind_io_def e)
  next
    case OtherBlock
    with Cons.IH show ?thesis by simp
  qed
qed

lemma tool_loop_runs:
  assumes always: "\<forall>ms. \<exists>r. C ms = Inr r \<and> stop_reason r = ''tool_use'' \<and> content r \<noteq> None"
    and "stop_reason resp = ''tool_use''" and "content resp \<noteq> None"
    and "iterations \<le> MAX_ITERATIONS"
  shows "\<exists>resp' messages' log'.
           tool_loop C P T c resp messages iterations log = (Inr (resp', messages', MAX_ITERATIONS), log') \<and>
           length messages' = length messages + 2 * (MAX_ITERATIONS - iterations) \<and>
           (iterations < MAX_ITERATIONS \<longrightarrow> C messages' = Inr resp')"
  using assms(2-4)
proof (induction "MAX_ITERATIONS - iterations" arbitrary: resp messages iterations log)
  case 0
  then have eq: "iterations = MAX_ITERATIONS" by simp
  have "tool_loop C P T c resp messages iterations log = (Inr (resp, messages, iterations), log)"
    by (subst tool_loop.simps) (simp add: eq)
  then show ?case by (simp add: eq)
next
  case (Suc k)
  then have lt: "iterations < MAX_ITERATIONS" by simp
  from Suc.prems obtain blocks where blocks: "content resp = Some blocks" by auto
  obtain toolResults log1 where rb: "run_blocks P T c blocks [] log = (Inr toolResults, log1)"
    using run_blocks_returns by blast
  let ?messages = "messages @ [(Assistant, Blocks (content resp)), (User, ToolResults toolResults)]"
  from always obtain r where r: "C ?messages = Inr r" "stop_reason r = ''tool_use''" "content r \<noteq> None"
    by blast
  have step: "tool_loop C P T c resp messages iterations log =
                tool_loop C P T c r ?messages (Suc iterations) log1"
    using lt Suc.prems(1) blocks rb r(1)
    by (simp add: tool_loop.simps [of C P T c resp messages iterations log])
  have k: "k = MAX_ITERATIONS - Suc iterations" using Suc.hyps(2) by simp
  have le: "Suc iterations \<le> MAX_ITERATIONS" using lt by simp
  from Suc.hyps(1) [OF k r(2) r(3) le, of ?messages log1]
  obtain resp' messages' log' where
    res: "tool_loop C P T c r ?messages (Suc iterations) log1 = (Inr (resp', messages', MAX_ITERATIONS), log')"
    and len: "length messages' = length ?messages + 2 * (MAX_ITERATIONS - Suc iterations)"
    and last: "Suc iterations < MAX_ITERATIONS \<longrightarrow> C messages' = Inr resp'"
    by blast
  have "C messages' = Inr resp'"
  proof (cases "Suc iterations < MAX_ITERATIONS")
    case True
    with last show ?thesis by simp
  next
    case False
    with le have eq: "Suc iterations = MAX_ITERATIONS" by simp
    have "tool_loop C P T c r ?messages (Suc iterations) log1 = (Inr (r, ?messages, Suc iterations), log1)"
      by (subst tool_loop.simps) (simp add: eq)
    with res have "resp' = r" "messages' = ?messages" by simp_all
    with r(1) show ?thesis by simp
  qed
  moreover have "length messages' = length messages + 2 * (MAX_ITERATIONS - iterations)"
    using len lt by simp
  ultimately show ?case using res step by simp
qed

lemma final_text_nonempty: "final_text resp \<noteq> []"
  by (simp add: final_text_def fallback_text_def Let_def split: option.splits)

text \<open>
  Claim C5 (loop termination). The model answers every request with a response whose
  stop reason is "tool_use" (and that has content). Then \<open>runAgent\<close> returns: the loop
  leaves with \<open>iterations = MAX_ITERATIONS = 10\<close>, having sent two messages for each
  iteration, and the response it leaves with is the model's answer to the last request.
  The text returned is the text segments of that response joined by newlines, or the
  fallback text when this is empty, in particular when there is no text segment; it is
  never empty. The history is saved with that text.
\<close>

theorem agent_loop_terminates:
  assumes "\<forall>ms. \<exists>r. C ms = Inr r \<and> stop_reason r = ''tool_use'' \<and> content r \<noteq> None"
  shows "\<exists>resp0 resp messages' log'.
           C (map (\<lambda>(r, t). (r, Text t)) (getHistory (kv_history s)) @ [(User, Text userMessage)]) = Inr resp0 \<and>
           tool_loop C P T c resp0
             (map (\<lambda>(r, t). (r, Text t)) (getHistory (kv_history s)) @ [(User, Text userMessage)])
             0 (tracker_log s) = (Inr (resp, messages', MAX_ITERATIONS), log') \<and>
           MAX_ITERATIONS = 10 \<and>
           C messages' = Inr resp \<and>
           length messages' = length (getHistory (kv_history s)) + 1 + 2 * MAX_ITERATIONS \<and>
           runAgent C P T userMessage c s =
             (Inr (final_text resp),
              \<lparr>kv_history = Some (saveHistory (getHistory (kv_history s)) userMessage (final_text resp)),
               tracker_log = log'\<rparr>) \<and>
           final_text resp =
             (case content resp of
                None \<Rightarrow> fallback_text
              | Some blocks \<Rightarrow>
                  if join [CHR 0x0A] (text_segments blocks) = [] then fallback_text
                  else join [CHR 0x0A] (text_segments blocks)) \<and>
           (\<forall>blocks. content resp = Some blocks \<and> text_segments blocks = [] \<longrightarrow>
              final_text resp = fallback_text) \<and>
           final_text resp \<noteq> [] \<and> fallback_text \<noteq> []"
proof -
  let ?messages = "map (\<lambda>(r, t). (r, Text t)) (getHistory (kv_history s)) @ [(User, Text userMessage)]"
  from assms obtain resp0 where r0: "C ?messages = Inr resp0" "stop_reason resp0 = ''tool_use''"
    "content resp0 \<noteq> None" by blast
  from tool_loop_runs [OF assms r0(2) r0(3), where iterations = 0 and P = P and T = T and c = c
      and messages = ?messages and log = "tracker_log s"]
  obtain resp messages' log' where
    loop: "tool_loop C P T c resp0 ?messages 0 (tracker_log s) = (Inr (resp, messages', MAX_ITERATIONS), log')"
    and len: "length messages' = length ?messages + 2 * (MAX_ITERATIONS - 0)"
    and last: "C messages' = Inr resp"
    by (auto simp: MAX_ITERATIONS_def)
  have run: "runAgent C P T userMessage c s =
             (Inr (final_text resp),
              \<lparr>kv_history = Some (saveHistory (getHistory (kv_history s)) userMessage (final_text resp)),
               tracker_log = log'\<rparr>)"
    by (simp add: runAgent_def Let_def r0(1) loop)
  have ft: "final_text resp =
             (case content resp of
                None \<Rightarrow> fallback_text
              | Some blocks \<Rightarrow>
                  if join [CHR 0x0A] (text_segments blocks) = [] then fallback_text
                  else join [CHR 0x0A] (text_segments blocks))"
    by (simp add: final_text_def Let_def split: option.splits)
  have nt: "\<forall>blocks. content resp = Some blocks \<and> text_segments blocks = [] \<longrightarrow>
              final_text resp = fallback_text"
    by (simp add: final_text_def Let_def)
  have ne: "final_text resp \<noteq> []" "fallback_text \<noteq> []"
    by (simp_all add: final_text_nonempty fallback_text_def)
  have mx: "MAX_ITERATIONS = 10" by (simp add: MAX_ITERATIONS_def)
  from r0(1) loop last len run ft nt ne mx show ?thesis by auto
qed

theorem agent_loop_terminates_witness:
  "(\<forall>ms. \<exists>r. ex_claude ms = Inr r \<and> stop_reason r = ''tool_use'' \<and> content r \<noteq> None) \<and>
   fst (runAgent ex_claude ascii ex_tracker ''mark yak-1 done'' ex_ctx \<lparr>kv_history = None, tracker_log = []\<rparr>) =
     Inr (''On it.'' @ [CHR 0x0A] @ ''Still working.'') \<and>
   (\<forall>ms. \<exists>r. ex_claude_silent ms = Inr r \<and> stop_reason r = ''tool_use'' \<and> content r \<noteq> None) \<and>
   fst (runAgent ex_claude_silent ascii ex_tracker ''mark yak-1 done'' ex_ctx \<lparr>kv_history = None, tracker_log = []\<rparr>) =
     Inr fallback_text"
proof -
  let ?s = "\<lparr>kv_history = None, tracker_log = []\<rparr>"
  have h1: "\<forall>ms. \<exists>r. ex_claude ms = Inr r \<and> stop_reason r = ''tool_use'' \<and> content r \<noteq> None"
    by (simp add: ex_claude_def)
  have h2: "\<forall>ms. \<exists>r. ex_claude_silent ms = Inr r \<and> stop_reason r = ''tool_use'' \<and> content r \<noteq> None"
    by (simp add: ex_claude_silent_def)
  from agent_loop_terminates [OF h1, where s = ?s and userMessage = "''mark yak-1 done''"
      and P = ascii and T = ex_tracker and c = ex_ctx]
  obtain resp messages' where
    "ex_claude messages' = Inr resp"
    "fst (runAgent ex_claude ascii ex_tracker ''mark yak-1 done'' ex_ctx ?s) = Inr (final_text resp)"
    by fastforce
  then have a: "fst (runAgent ex_claude ascii ex_tracker ''mark yak-1 done'' ex_ctx ?s) =
     Inr (''On it.'' @ [CHR 0x0A] @ ''Still working.'')"
    by (auto simp: ex_claude_def final_text_def text_segments_def)
  from agent_loop_terminates [OF h2, where s = ?s and userMessage = "''mark yak-1 done''"
      and P = ascii and T = ex_tracker and c = ex_ctx]
  obtain resp messages' where
    "ex_claude_silent messages' = Inr resp"
    "fst (runAgent ex_claude_silent ascii ex_tracker ''mark yak-1 done'' ex_ctx ?s) = Inr (final_text resp)"
    by fastforce
  then have b: "fst (runAgent ex_claude_silent ascii ex_tracker ''mark yak-1 done'' ex_ctx ?s) = Inr fallback_text"
    by (auto simp: ex_claude_silent_def final_text_def text_segments_def)
  from h1 a h2 b show ?thesis by blast
qed

section \<open>The fingerprint\<close>

subsection \<open>Independence of the order\<close>

lemma sort_mset_cong: "mset xs = mset ys \<Longrightarrow> sort xs = sort ys"
  by (rule properties_for_sort) simp_all

lemma normalize_relabelled:
  assumes "relabelled a b"
  shows "normalize b = normalize a"
proof -
  from assms have eq: "b\<lparr>i_labels := i_labels a\<rparr> = a" and ms: "mset (i_labels b) = mset (i_labels a)"
    by (simp_all add: relabelled_def)
  have "i_identifier (b\<lparr>i_labels := i_labels a\<rparr>) = i_identifier a"
    "i_state (b\<lparr>i_labels := i_labels a\<rparr>) = i_state a"
    "i_priority (b\<lparr>i_labels := i_labels a\<rparr>) = i_priority a"
    "i_assignee (b\<lparr>i_labels := i_labels a\<rparr>) = i_assignee a"
    "i_project (b\<lparr>i_labels := i_labels a\<rparr>) = i_project a"
    "i_dueDate (b\<lparr>i_labels := i_labels a\<rparr>) = i_dueDate a"
    by (simp_all only: eq)
  then have fields: "i_identifier b = i_identifier a" "i_state b = i_state a"
    "i_priority b = i_priority a" "i_assignee b = i_assignee a" "i_project b = i_project a"
    "i_dueDate b = i_dueDate a"
    by simp_all
  from ms have "mset (map l_name (i_labels b)) = mset (map l_name (i_labels a))" by simp
  then have "sort (map l_name (i_labels b)) = sort (map l_name (i_labels a))"
    by (rule sort_mset_cong)
  with fields show ?thesis by (simp add: normalize_def)
qed

lemma map_normalize_relabelled:
  "list_all2 relabelled xs zs \<Longrightarrow> map normalize zs = map normalize xs"
  by (induction rule: list_all2_induct) (simp_all add: normalize_relabelled)

lemma inj_on_collate:
  assumes "distinct (map (\<lambda>i. collate (i_identifier i)) xs)"
  shows "inj_on (\<lambda>n. collate (n_id n)) (set (map normalize xs))"
proof (rule inj_onI)
  fix n m
  assume "n \<in> set (map normalize xs)" "m \<in> set (map normalize xs)"
    and k: "collate (n_id n) = collate (n_id m)"
  then obtain a b where a: "a \<in> set xs" "n = normalize a" and b: "b \<in> set xs" "m = normalize b"
    by auto
  from k a b have "collate (i_identifier a) = collate (i_identifier b)"
    by (simp add: normalize_def)
  moreover from assms have "inj_on (\<lambda>i. collate (i_identifier i)) (set xs)"
    by (simp add: distinct_map)
  ultimately have "a = b" using a(1) b(1) by (auto dest: inj_onD)
  with a b show "n = m" by simp
qed

text \<open>
  Claim C3 (fingerprint determinism). The issues \<open>xs\<close> have pairwise distinct
  identifiers (distinct sort keys under the collation), as the issues of a snapshot have.
  Let \<open>ys\<close> be any list with the same issues in any order, the labels of each issue in any
  order. Then the sorted list of normalized issues is the same for \<open>ys\<close> and \<open>xs\<close>, and so
  is the fingerprint, whatever the digest function.
\<close>

theorem fingerprint_order_independent:
  assumes "distinct (map (\<lambda>i. collate (i_identifier i)) xs)"
    and "list_all2 relabelled xs zs" and "mset ys = mset zs"
  shows "normalized_issues collate ys = normalized_issues collate xs \<and>
         hashIssues collate sha256 ys = hashIssues collate sha256 xs"
proof -
  have "mset (map normalize ys) = mset (map normalize zs)"
    using assms(3) by simp
  also have "map normalize zs = map normalize xs"
    using assms(2) by (rule map_normalize_relabelled)
  finally have ms: "mset (map normalize xs) = mset (map normalize ys)" by simp
  have "sort_key (\<lambda>n. collate (n_id n)) (map normalize xs) =
        sort_key (\<lambda>n. collate (n_id n)) (map normalize ys)"
    using ms inj_on_collate [OF assms(1)] by (rule sort_key_eq_sort_key)
  then have n: "normalized_issues collate ys = normalized_issues collate xs"
    by (simp add: normalized_issues_def)
  then show ?thesis by (simp add: hashIssues_def)
qed

theorem fingerprint_order_independent_witness:
  "hashIssues (\<lambda>s. s) ex_sha [ex_issue_b, ex_issue_a'] = hashIssues (\<lambda>s. s) ex_sha [ex_issue_a, ex_issue_b] \<and>
   normalized_issues (\<lambda>s. s) [ex_issue_b, ex_issue_a'] = normalized_issues (\<lambda>s. s) [ex_issue_a, ex_issue_b]"
proof -
  have d: "distinct (map (\<lambda>i. i_identifier i) [ex_issue_a, ex_issue_b])"
    by (simp add: ex_issue_a_def ex_issue_b_def ex_issue_def)
  have r: "list_all2 relabelled [ex_issue_a, ex_issue_b] [ex_issue_a', ex_issue_b]"
    by (simp add: relabelled_def ex_issue_a_def ex_issue_a'_def ex_issue_def)
  have m: "mset [ex_issue_b, ex_issue_a'] = mset [ex_issue_a', ex_issue_b]"
    by simp
  from fingerprint_order_independent [OF d r m, of ex_sha] show ?thesis by simp
qed

subsection \<open>The fingerprint and the digest\<close>

lemma hex_digit_inj: "a < 16 \<Longrightarrow> b < 16 \<Longrightarrow> hex_digit a = hex_digit b \<Longrightarrow> a = b"
proof -
  assume a: "a < 16" and b: "b < 16" and e: "hex_digit a = hex_digit b"
  have d: "distinct ''0123456789abcdef''" by simp
  have l: "length ''0123456789abcdef'' = 16" by simp
  from e have "''0123456789abcdef'' ! a = ''0123456789abcdef'' ! b" by (simp only: hex_digit_def)
  with d a b l show "a = b" by (simp only: nth_eq_iff_index_eq)
qed

lemma hex_byte_inj: "hex_byte a = hex_byte b \<Longrightarrow> a = b"
proof -
  assume e: "hex_byte a = hex_byte b"
  have ua: "unat a < 256" and ub: "unat b < 256"
    using unsigned_less [of a, where ?'a = nat] unsigned_less [of b, where ?'a = nat] by simp_all
  then have d: "unat a div 16 < 16" "unat b div 16 < 16"
    by simp_all
  have m: "unat a mod 16 < 16" "unat b mod 16 < 16"
    by simp_all
  from e have h1: "hex_digit (unat a div 16) = hex_digit (unat b div 16)"
    and h2: "hex_digit (unat a mod 16) = hex_digit (unat b mod 16)"
    by (simp_all add: hex_byte_def)
  have "unat a div 16 = unat b div 16" using d h1 by (rule hex_digit_inj)
  moreover have "unat a mod 16 = unat b mod 16" using m h2 by (rule hex_digit_inj)
  ultimately have "unat a div 16 = unat b div 16" "unat a mod 16 = unat b mod 16" .
  then have "unat a = unat b" by (metis div_mult_mod_eq)
  then show "a = b" by (simp add: word_unat_eq_iff)
qed

lemma concat_hex_inj:
  "length xs = length ys \<Longrightarrow> concat (map hex_byte xs) = concat (map hex_byte ys) \<Longrightarrow> xs = ys"
proof (induction xs ys rule: list_induct2)
  case Nil
  then show ?case by simp
next
  case (Cons x xs y ys)
  have "length (hex_byte x) = length (hex_byte y)" by (simp add: hex_byte_def)
  with Cons.prems have "hex_byte x = hex_byte y" "concat (map hex_byte xs) = concat (map hex_byte ys)"
    by simp_all
  with Cons.IH show ?case by (simp add: hex_byte_inj)
qed

lemma digest_bytes_inj: "digest_bytes w = digest_bytes v \<Longrightarrow> w = v"
proof (rule bit_eqI)
  fix n
  assume e: "digest_bytes w = digest_bytes v"
  assume "possible_bit TYPE(256 word) n"
  then have n: "n < 256" by (simp add: possible_bit_def)
  define i where "i = 31 - n div 8"
  from n have i: "i < 32" and q: "8 * (31 - i) = 8 * (n div 8)" by (simp_all add: i_def)
  from e have "map (\<lambda>i. ucast (drop_bit (8 * (31 - i)) w) :: 8 word) [0..<32] ! i =
               map (\<lambda>i. ucast (drop_bit (8 * (31 - i)) v) :: 8 word) [0..<32] ! i"
    by (simp only: digest_bytes_def)
  with i have "(ucast (drop_bit (8 * (31 - i)) w) :: 8 word) = ucast (drop_bit (8 * (31 - i)) v)"
    by simp
  then have "bit (ucast (drop_bit (8 * (n div 8)) w) :: 8 word) (n mod 8) =
             bit (ucast (drop_bit (8 * (n div 8)) v) :: 8 word) (n mod 8)"
    by (simp only: q)
  then have "bit w (8 * (n div 8) + n mod 8) = bit v (8 * (n div 8) + n mod 8)"
    by (simp add: bit_ucast_iff bit_drop_bit_eq)
  then show "bit w n = bit v n" by simp
qed

lemma hex_of_digest_inj: "hex_of_digest w = hex_of_digest v \<Longrightarrow> w = v"
proof -
  assume "hex_of_digest w = hex_of_digest v"
  moreover have "length (digest_bytes w) = length (digest_bytes v)" by (simp add: digest_bytes_def)
  ultimately have "digest_bytes w = digest_bytes v"
    unfolding hex_of_digest_def by (rule concat_hex_inj [rotated])
  then show "w = v" by (rule digest_bytes_inj)
qed

text \<open>Two lists of issues have the same fingerprint exactly when their texts have the same digest.\<close>

lemma hashIssues_eq_iff:
  "hashIssues collate sha256 xs = hashIssues collate sha256 ys \<longleftrightarrow>
     sha256 (hashed_text collate xs) = sha256 (hashed_text collate ys)"
  by (auto simp: hashIssues_def hashed_text_def Let_def dest: hex_of_digest_inj)


subsection \<open>The text determines the normalized issues\<close>

lemma hex_val_digit_all: "\<forall>k \<in> set [0..<16]. hex_val (hex_digit k) = k"
  by code_simp

lemma hex_val_digit: "k < 16 \<Longrightarrow> hex_val (hex_digit k) = k"
  using hex_val_digit_all by simp

lemma char_of_of_char_eq: "of_char ch = (n::nat) \<Longrightarrow> char_of n = ch"
  by auto

lemma read_escape_json_escape: "read_escape (json_escape ch @ x) = Some (ch, x)"
proof -
  let ?n = "of_char ch :: nat"
  consider (dq) "ch = dq" | (bs) "ch = bs"
    | (ctl) "ch \<noteq> dq" "ch \<noteq> bs" "?n \<in> {8, 9, 10, 12, 13}"
    | (uni) "ch \<noteq> dq" "ch \<noteq> bs" "?n \<notin> {8, 9, 10, 12, 13}" "?n < 32"
    | (raw) "ch \<noteq> dq" "ch \<noteq> bs" "?n \<notin> {8, 9, 10, 12, 13}" "\<not> ?n < 32"
    by blast
  then show ?thesis
  proof cases
    case dq
    then show ?thesis by (simp add: json_escape_def read_escape_def dq_def bs_def)
  next
    case bs
    then show ?thesis by (simp add: json_escape_def read_escape_def dq_def bs_def)
  next
    case ctl
    then show ?thesis
      by (auto simp: json_escape_def read_escape_def dq_def bs_def Let_def dest: char_of_of_char_eq)
  next
    case uni
    then have d: "?n div 16 < 16" "?n mod 16 < 16" by simp_all
    have "char_of (16 * (?n div 16) + ?n mod 16) = ch" by simp
    with uni show ?thesis
      by (simp add: json_escape_def read_escape_def dq_def bs_def Let_def hex_val_digit [OF d(1)]
          hex_val_digit [OF d(2)])
  next
    case raw
    then show ?thesis by (simp add: json_escape_def read_escape_def Let_def)
  qed
qed

lemma json_escape_inj: "json_escape a @ x = json_escape b @ y \<Longrightarrow> a = b \<and> x = y"
proof -
  assume "json_escape a @ x = json_escape b @ y"
  then have "read_escape (json_escape a @ x) = read_escape (json_escape b @ y)" by simp
  then show ?thesis by (simp add: read_escape_json_escape)
qed

lemma json_escape_hd: "\<exists>h t. json_escape ch = h # t \<and> h \<noteq> dq"
  by (auto simp: json_escape_def Let_def dq_def bs_def)

lemma escaped_inj:
  "concat (map json_escape s) @ dq # r = concat (map json_escape s') @ dq # r' \<Longrightarrow> s = s' \<and> r = r'"
proof (induction s arbitrary: s')
  case Nil
  show ?case
  proof (cases s')
    case Nil
    with Nil.prems show ?thesis by simp
  next
    case (Cons d u)
    from json_escape_hd [of d] obtain h t where "json_escape d = h # t" "h \<noteq> dq" by blast
    with Nil.prems Cons show ?thesis by simp
  qed
next
  case (Cons c t)
  show ?case
  proof (cases s')
    case Nil
    from json_escape_hd [of c] obtain h t' where "json_escape c = h # t'" "h \<noteq> dq" by blast
    with Cons.prems Nil show ?thesis by simp
  next
    case (Cons d u)
    with Cons.prems have "json_escape c @ (concat (map json_escape t) @ dq # r) =
                          json_escape d @ (concat (map json_escape u) @ dq # r')"
      by simp
    then have "c = d" and "concat (map json_escape t) @ dq # r = concat (map json_escape u) @ dq # r'"
      by (auto dest: json_escape_inj)
    with Cons.IH [of u] Cons show ?thesis by simp
  qed
qed

lemma json_string_inj: "json_string s @ r = json_string s' @ r' \<Longrightarrow> s = s' \<and> r = r'"
  by (rule escaped_inj) (simp add: json_string_def)

lemma digits_all_digit: "\<forall>ch \<in> set (digits n). is_digit ch"
proof (induction n rule: digits.induct)
  case (1 n)
  show ?case
  proof (cases "n < 10")
    case True
    then show ?thesis by (subst digits.simps) (simp add: is_digit_def)
  next
    case False
    have "n mod 10 < 10" by simp
    then have "is_digit (char_of (48 + n mod 10))" by (simp add: is_digit_def)
    with False "1.IH" show ?thesis by (subst digits.simps) simp
  qed
qed

lemma digits_nonempty: "digits n \<noteq> []"
  by (subst digits.simps) simp

lemma digits_val_digits: "digits_val (digits n) = n"
proof (induction n rule: digits.induct)
  case (1 n)
  show ?case
  proof (cases "n < 10")
    case True
    then show ?thesis by (subst digits.simps) (simp add: digits_val_def)
  next
    case False
    have m: "n mod 10 < 10" by simp
    have "digits_val (digits (n div 10) @ [char_of (48 + n mod 10)]) =
            10 * digits_val (digits (n div 10)) + (of_char (char_of (48 + n mod 10)) - 48)"
      by (simp add: digits_val_def)
    also have "\<dots> = 10 * (n div 10) + n mod 10"
      using False "1.IH" m by simp
    finally show ?thesis using False by (subst digits.simps) simp
  qed
qed

lemma digits_inj: "digits n = digits m \<Longrightarrow> n = m"
  by (metis digits_val_digits)

lemma digit_run_inj:
  assumes "\<forall>ch \<in> set xs. is_digit ch" and "\<forall>ch \<in> set ys. is_digit ch"
    and "\<not> is_digit c" and "\<not> is_digit d"
    and "xs @ c # r = ys @ d # r'"
  shows "xs = ys \<and> c # r = d # r'"
  using assms
proof (induction xs arbitrary: ys)
  case Nil
  then show ?case by (cases ys) auto
next
  case (Cons x xs)
  show ?case
  proof (cases ys)
    case Nil
    with Cons.prems show ?thesis by auto
  next
    case (Cons y ys')
    with Cons.prems Cons.IH [of ys'] show ?thesis by auto
  qed
qed

lemma json_int_inj:
  assumes "json_int i @ CHR '','' # r = json_int j @ CHR '','' # r'"
  shows "i = j \<and> r = r'"
proof -
  have comma: "\<not> is_digit CHR '',''" by (simp add: is_digit_def)
  have minus: "\<not> is_digit CHR ''-''" by (simp add: is_digit_def)
  have run: "\<And>n m. digits n @ CHR '','' # r = digits m @ CHR '','' # r' \<Longrightarrow> n = m \<and> r = r'"
  proof -
    fix n m
    assume "digits n @ CHR '','' # r = digits m @ CHR '','' # r'"
    with digit_run_inj [OF digits_all_digit digits_all_digit comma comma]
    have "digits n = digits m \<and> CHR '','' # r = CHR '','' # r'" by blast
    then show "n = m \<and> r = r'" by (auto dest: digits_inj)
  qed
  have first: "\<And>n. \<exists>h t. digits n = h # t \<and> is_digit h"
  proof -
    fix n
    from digits_nonempty [of n] obtain h t where "digits n = h # t" by (cases "digits n") auto
    moreover with digits_all_digit [of n] have "is_digit h" by simp
    ultimately show "\<exists>h t. digits n = h # t \<and> is_digit h" by blast
  qed
  consider (pp) "\<not> i < 0" "\<not> j < 0" | (nn) "i < 0" "j < 0" | (np) "i < 0" "\<not> j < 0" | (pn) "\<not> i < 0" "j < 0"
    by blast
  then show ?thesis
  proof cases
    case pp
    with assms have "digits (nat i) @ CHR '','' # r = digits (nat j) @ CHR '','' # r'"
      by (simp add: json_int_def)
    then have e: "nat i = nat j" "r = r'" by (auto dest: run)
    from e(1) have "int (nat i) = int (nat j)" by simp
    with pp e(2) show ?thesis by simp
  next
    case nn
    with assms have "digits (nat (- i)) @ CHR '','' # r = digits (nat (- j)) @ CHR '','' # r'"
      by (simp add: json_int_def)
    then have e: "nat (- i) = nat (- j)" "r = r'" by (auto dest: run)
    from e(1) have "int (nat (- i)) = int (nat (- j))" by simp
    with nn e(2) show ?thesis by simp
  next
    case np
    from first [of "nat j"] obtain h t where "digits (nat j) = h # t" "is_digit h" by blast
    with np assms minus show ?thesis by (auto simp: json_int_def)
  next
    case pn
    from first [of "nat i"] obtain h t where "digits (nat i) = h # t" "is_digit h" by blast
    with pn assms minus show ?thesis by (auto simp: json_int_def)
  qed
qed

text \<open>Arrays: elements written by E, separated by commas, closed by a bracket.\<close>

lemma join_Cons: "join sep (x # xs) = (if xs = [] then x else x @ sep @ join sep xs)"
  by (cases xs) simp_all

lemma elements_inj:
  assumes inj: "\<And>x y t t'. E x @ t = E y @ t' \<Longrightarrow> x = y \<and> t = t'"
    and hd: "\<And>x. \<exists>h t. E x = h # t \<and> h \<noteq> CHR '']''"
  shows "join '','' (map E xs) @ CHR '']'' # r = join '','' (map E ys) @ CHR '']'' # r'
           \<Longrightarrow> xs = ys \<and> r = r'"
proof (induction xs arbitrary: ys)
  case Nil
  show ?case
  proof (cases ys)
    case Nil
    with Nil.prems show ?thesis by simp
  next
    case (Cons y ys')
    from hd [of y] obtain h t where "E y = h # t" "h \<noteq> CHR '']''" by blast
    with Nil.prems Cons show ?thesis by (simp add: join_Cons split: if_splits)
  qed
next
  case (Cons x xs')
  show ?case
  proof (cases ys)
    case Nil
    from hd [of x] obtain h t where "E x = h # t" "h \<noteq> CHR '']''" by blast
    with Cons.prems Nil show ?thesis by (simp add: join_Cons split: if_splits)
  next
    case (Cons y ys')
    let ?tx = "(if xs' = [] then [] else '','' @ join '','' (map E xs')) @ CHR '']'' # r"
    let ?ty = "(if ys' = [] then [] else '','' @ join '','' (map E ys')) @ CHR '']'' # r'"
    from Cons.prems Cons have eq: "E x @ ?tx = E y @ ?ty"
      by (auto simp: join_Cons split: if_splits)
    from inj [OF eq] have xy: "x = y" and t: "?tx = ?ty" by blast+
    have "xs' = ys' \<and> r = r'"
    proof (cases "xs' = []")
      case xe: True
      show ?thesis
      proof (cases "ys' = []")
        case True
        with t xe show ?thesis by simp
      next
        case False
        with t xe show ?thesis by simp
      qed
    next
      case xn: False
      show ?thesis
      proof (cases "ys' = []")
        case True
        with t xn show ?thesis by simp
      next
        case False
        with t xn have "join '','' (map E xs') @ CHR '']'' # r = join '','' (map E ys') @ CHR '']'' # r'"
          by simp
        then show ?thesis by (rule Cons.IH)
      qed
    qed
    with xy Cons show ?thesis by simp
  qed
qed

lemma json_array_inj:
  assumes inj: "\<And>x y t t'. E x @ t = E y @ t' \<Longrightarrow> x = y \<and> t = t'"
    and hd: "\<And>x. \<exists>h t. E x = h # t \<and> h \<noteq> CHR '']''"
    and "json_array (map E xs) @ r = json_array (map E ys) @ r'"
  shows "xs = ys \<and> r = r'"
proof -
  from assms(3) have "join '','' (map E xs) @ CHR '']'' # r = join '','' (map E ys) @ CHR '']'' # r'"
    by (simp add: json_array_def)
  with inj hd show ?thesis by (rule elements_inj)
qed

lemma json_string_hd: "\<exists>h t. json_string s = h # t \<and> h \<noteq> CHR '']''"
  by (simp add: json_string_def dq_def)

lemma labels_inj:
  "json_array (map json_string xs) @ r = json_array (map json_string ys) @ r' \<Longrightarrow> xs = ys \<and> r = r'"
proof -
  assume a: "json_array (map json_string xs) @ r = json_array (map json_string ys) @ r'"
  show ?thesis
  proof (rule json_array_inj [where E = json_string])
    show "\<And>x y t t'. json_string x @ t = json_string y @ t' \<Longrightarrow> x = y \<and> t = t'"
      by (rule json_string_inj)
    show "\<And>x. \<exists>h t. json_string x = h # t \<and> h \<noteq> CHR '']''"
      by (rule json_string_hd)
    show "json_array (map json_string xs) @ r = json_array (map json_string ys) @ r'"
      by (rule a)
  qed
qed

lemma json_normalized_text:
  "json_normalized n =
     ''{'' @ json_string ''id'' @ '':'' @ json_string (n_id n)
     @ opt_prop ''status'' (n_status n)
     @ '','' @ json_string ''priority'' @ '':'' @ json_int (n_priority n)
     @ opt_prop ''assignee'' (n_assignee n)
     @ opt_prop ''project'' (n_project n)
     @ '','' @ json_string ''labels'' @ '':'' @ json_array (map json_string (n_labels n))
     @ '','' @ json_string ''dueDate'' @ '':''
     @ (case n_dueDate n of None \<Rightarrow> ''null'' | Some d \<Rightarrow> json_string d) @ ''}''"
  by (simp add: json_normalized_def json_object_def opt_prop_def split: option.splits)

lemma key_value_inj:
  assumes "json_string k @ CHR '':'' # json_string v @ t = json_string k' @ CHR '':'' # json_string v' @ t'"
  shows "k = k' \<and> v = v' \<and> t = t'"
proof -
  from json_string_inj [OF assms] have k: "k = k'"
    and "CHR '':'' # json_string v @ t = CHR '':'' # json_string v' @ t'" by blast+
  then have "json_string v @ t = json_string v' @ t'" by simp
  from json_string_inj [OF this] k show ?thesis by simp
qed

text \<open>An optional property, before a text that starts with another property.\<close>

lemma opt_prop_inj:
  assumes y: "y = '','' @ json_string k2 @ x" "k2 \<noteq> k"
    and y': "y' = '','' @ json_string k3 @ x'" "k3 \<noteq> k"
    and eq: "opt_prop k v @ y = opt_prop k v' @ y'"
  shows "v = v' \<and> y = y'"
proof (cases v; cases v')
  assume "v = None" "v' = None"
  with eq show ?thesis by (simp add: opt_prop_def)
next
  fix t' assume v: "v = None" "v' = Some t'"
  with eq y have "json_string k2 @ x = json_string k @ ('':'' @ json_string t' @ y')"
    by (simp add: opt_prop_def)
  from json_string_inj [OF this] y(2) show ?thesis by simp
next
  fix t assume v: "v = Some t" "v' = None"
  with eq y' have "json_string k @ ('':'' @ json_string t @ y) = json_string k3 @ x'"
    by (simp add: opt_prop_def)
  from json_string_inj [OF this] y'(2) show ?thesis by simp
next
  fix t t' assume v: "v = Some t" "v' = Some t'"
  with eq have "json_string k @ CHR '':'' # json_string t @ y = json_string k @ CHR '':'' # json_string t' @ y'"
    by (simp add: opt_prop_def)
  from key_value_inj [OF this] v show ?thesis by simp
qed

lemma opt_prop_starts:
  "\<exists>k2 x. opt_prop k v @ '','' @ json_string k3 @ z = '','' @ json_string k2 @ x \<and> (k2 = k \<or> k2 = k3)"
  by (cases v) (auto simp: opt_prop_def)

lemma due_inj:
  assumes "(case d of None \<Rightarrow> ''null'' | Some t \<Rightarrow> json_string t) @ CHR ''}'' # r =
           (case d' of None \<Rightarrow> ''null'' | Some t \<Rightarrow> json_string t) @ CHR ''}'' # r'"
  shows "d = d' \<and> r = r'"
proof (cases d; cases d')
  assume "d = None" "d' = None"
  with assms show ?thesis by simp
next
  fix t' assume "d = None" "d' = Some t'"
  with assms show ?thesis by (simp add: json_string_def dq_def)
next
  fix t assume "d = Some t" "d' = None"
  with assms show ?thesis by (simp add: json_string_def dq_def)
next
  fix t t' assume v: "d = Some t" "d' = Some t'"
  with assms have "json_string t @ CHR ''}'' # r = json_string t' @ CHR ''}'' # r'" by simp
  from json_string_inj [OF this] v show ?thesis by simp
qed

lemma json_normalized_inj:
  assumes "json_normalized n @ r = json_normalized m @ r'"
  shows "n = m \<and> r = r'"
proof -
  define F where "F n r = '','' @ json_string ''dueDate'' @ '':''
     @ (case n_dueDate n of None \<Rightarrow> ''null'' | Some d \<Rightarrow> json_string d) @ ''}'' @ r" for n :: normalized and r
  define E where "E n r = '','' @ json_string ''labels'' @ '':'' @ json_array (map json_string (n_labels n)) @ F n r"
    for n :: normalized and r
  define D where "D n r = opt_prop ''project'' (n_project n) @ E n r" for n :: normalized and r
  define C where "C n r = opt_prop ''assignee'' (n_assignee n) @ D n r" for n :: normalized and r
  define B where "B n r = '','' @ json_string ''priority'' @ '':'' @ json_int (n_priority n) @ C n r"
    for n :: normalized and r
  define A where "A n r = opt_prop ''status'' (n_status n) @ B n r" for n :: normalized and r
  have whole: "json_normalized n @ r = ''{'' @ json_string ''id'' @ '':'' @ json_string (n_id n) @ A n r"
    for n r
    by (simp add: json_normalized_text A_def B_def C_def D_def E_def F_def)
  from assms have "json_string ''id'' @ CHR '':'' # json_string (n_id n) @ A n r =
                   json_string ''id'' @ CHR '':'' # json_string (n_id m) @ A m r'"
    by (simp add: whole)
  from key_value_inj [OF this] have id: "n_id n = n_id m" and a: "A n r = A m r'" by simp_all
  have "n_status n = n_status m \<and> B n r = B m r'"
  proof (rule opt_prop_inj)
    show "B n r = '','' @ json_string ''priority'' @ ('':'' @ json_int (n_priority n) @ C n r)"
      by (simp add: B_def)
    show "B m r' = '','' @ json_string ''priority'' @ ('':'' @ json_int (n_priority m) @ C m r')"
      by (simp add: B_def)
    show "opt_prop ''status'' (n_status n) @ B n r = opt_prop ''status'' (n_status m) @ B m r'"
      using a by (simp add: A_def)
  qed simp_all
  then have st: "n_status n = n_status m" and b: "B n r = B m r'" by simp_all
  have dstart: "\<exists>k2 x. D n r = '','' @ json_string k2 @ x \<and> (k2 = ''project'' \<or> k2 = ''labels'')" for n r
    unfolding D_def E_def by (rule opt_prop_starts)
  have cstart: "\<exists>t. C n r = CHR '','' # t" for n r
    using dstart [of n r] by (cases "n_assignee n") (auto simp: C_def opt_prop_def)
  obtain t t' where ct: "C n r = CHR '','' # t" "C m r' = CHR '','' # t'"
    using cstart by blast
  from b have "json_string ''priority'' @ CHR '':'' # json_int (n_priority n) @ C n r =
               json_string ''priority'' @ CHR '':'' # json_int (n_priority m) @ C m r'"
    by (simp add: B_def)
  from json_string_inj [OF this]
  have "json_int (n_priority n) @ CHR '','' # t = json_int (n_priority m) @ CHR '','' # t'"
    by (simp add: ct)
  from json_int_inj [OF this] ct have pr: "n_priority n = n_priority m" and c: "C n r = C m r'"
    by simp_all
  obtain k2 x where d1: "D n r = '','' @ json_string k2 @ x" "k2 = ''project'' \<or> k2 = ''labels''"
    using dstart by blast
  obtain k3 x' where d2: "D m r' = '','' @ json_string k3 @ x'" "k3 = ''project'' \<or> k3 = ''labels''"
    using dstart by blast
  have "n_assignee n = n_assignee m \<and> D n r = D m r'"
  proof (rule opt_prop_inj)
    show "D n r = '','' @ json_string k2 @ x" by (rule d1(1))
    show "D m r' = '','' @ json_string k3 @ x'" by (rule d2(1))
    show "k2 \<noteq> ''assignee''" using d1(2) by auto
    show "k3 \<noteq> ''assignee''" using d2(2) by auto
    show "opt_prop ''assignee'' (n_assignee n) @ D n r = opt_prop ''assignee'' (n_assignee m) @ D m r'"
      using c by (simp add: C_def)
  qed
  then have asg: "n_assignee n = n_assignee m" and d: "D n r = D m r'" by simp_all
  have "n_project n = n_project m \<and> E n r = E m r'"
  proof (rule opt_prop_inj)
    show "E n r = '','' @ json_string ''labels'' @ ('':'' @ json_array (map json_string (n_labels n)) @ F n r)"
      by (simp add: E_def)
    show "E m r' = '','' @ json_string ''labels'' @ ('':'' @ json_array (map json_string (n_labels m)) @ F m r')"
      by (simp add: E_def)
    show "opt_prop ''project'' (n_project n) @ E n r = opt_prop ''project'' (n_project m) @ E m r'"
      using d by (simp add: D_def)
  qed simp_all
  then have prj: "n_project n = n_project m" and e: "E n r = E m r'" by simp_all
  from e have "json_string ''labels'' @ CHR '':'' # json_array (map json_string (n_labels n)) @ F n r =
               json_string ''labels'' @ CHR '':'' # json_array (map json_string (n_labels m)) @ F m r'"
    by (simp add: E_def)
  from json_string_inj [OF this]
  have "json_array (map json_string (n_labels n)) @ F n r = json_array (map json_string (n_labels m)) @ F m r'"
    by simp
  from labels_inj [OF this] have lb: "n_labels n = n_labels m" and f: "F n r = F m r'" by simp_all
  from f have "json_string ''dueDate'' @ CHR '':'' #
                 ((case n_dueDate n of None \<Rightarrow> ''null'' | Some d \<Rightarrow> json_string d) @ CHR ''}'' # r) =
               json_string ''dueDate'' @ CHR '':'' #
                 ((case n_dueDate m of None \<Rightarrow> ''null'' | Some d \<Rightarrow> json_string d) @ CHR ''}'' # r')"
    by (simp add: F_def)
  from json_string_inj [OF this]
  have "(case n_dueDate n of None \<Rightarrow> ''null'' | Some d \<Rightarrow> json_string d) @ CHR ''}'' # r =
        (case n_dueDate m of None \<Rightarrow> ''null'' | Some d \<Rightarrow> json_string d) @ CHR ''}'' # r'"
    by simp
  from due_inj [OF this] have due: "n_dueDate n = n_dueDate m" and r: "r = r'" by simp_all
  from id st pr asg prj lb due have "n = m" by simp
  with r show ?thesis by simp
qed

lemma json_normalized_hd: "\<exists>h t. json_normalized n = h # t \<and> h \<noteq> CHR '']''"
  by (simp add: json_normalized_text)

lemma stringify_inj: "stringify ns = stringify ms \<Longrightarrow> ns = ms"
proof -
  assume "stringify ns = stringify ms"
  then have a: "json_array (map json_normalized ns) @ [] = json_array (map json_normalized ms) @ []"
    by (simp add: stringify_def)
  have "ns = ms \<and> ([] :: string) = []"
  proof (rule json_array_inj [where E = json_normalized])
    show "\<And>x y t t'. json_normalized x @ t = json_normalized y @ t' \<Longrightarrow> x = y \<and> t = t'"
      by (rule json_normalized_inj)
    show "\<And>x. \<exists>h t. json_normalized x = h # t \<and> h \<noteq> CHR '']''"
      by (rule json_normalized_hd)
    show "json_array (map json_normalized ns) @ [] = json_array (map json_normalized ms) @ []"
      by (rule a)
  qed
  then show "ns = ms" by simp
qed


subsection \<open>Sensitivity to the tracked fields\<close>

lemma normalize_tracked_differ:
  assumes "tracked_differ a b"
  shows "normalize a \<noteq> normalize b"
proof
  assume e: "normalize a = normalize b"
  then have "n_status (normalize a) = n_status (normalize b)"
    "n_priority (normalize a) = n_priority (normalize b)"
    "n_assignee (normalize a) = n_assignee (normalize b)"
    "n_project (normalize a) = n_project (normalize b)"
    "n_dueDate (normalize a) = n_dueDate (normalize b)"
    "set (n_labels (normalize a)) = set (n_labels (normalize b))"
    by simp_all
  then have "\<not> tracked_differ a b"
    by (simp add: normalize_def tracked_differ_def)
  with assms show False by simp
qed

lemma normalized_issues_update:
  assumes "k < length xs" and "normalize b \<noteq> normalize (xs ! k)"
  shows "normalized_issues collate (xs[k := b]) \<noteq> normalized_issues collate xs"
proof
  assume "normalized_issues collate (xs[k := b]) = normalized_issues collate xs"
  then have "mset (normalized_issues collate (xs[k := b])) = mset (normalized_issues collate xs)"
    by simp
  then have "mset (map normalize (xs[k := b])) = mset (map normalize xs)"
    by (simp add: normalized_issues_def)
  moreover have "xs = take k xs @ xs ! k # drop (Suc k) xs"
    using assms(1) by (simp add: id_take_nth_drop [symmetric])
  moreover have "xs[k := b] = take k xs @ b # drop (Suc k) xs"
    using assms(1) by (simp add: upd_conv_take_nth_drop)
  ultimately have "mset (map normalize (take k xs @ b # drop (Suc k) xs)) =
                   mset (map normalize (take k xs @ xs ! k # drop (Suc k) xs))"
    by simp
  then have "normalize b = normalize (xs ! k)" by simp
  with assms(2) show False by simp
qed

lemma hashed_text_update:
  assumes "k < length xs" and "tracked_differ (xs ! k) b"
  shows "normalized_issues collate (xs[k := b]) \<noteq> normalized_issues collate xs \<and>
         hashed_text collate (xs[k := b]) \<noteq> hashed_text collate xs"
proof -
  from assms(2) have "normalize b \<noteq> normalize (xs ! k)"
    by (auto dest: normalize_tracked_differ)
  with assms(1) have n: "normalized_issues collate (xs[k := b]) \<noteq> normalized_issues collate xs"
    by (rule normalized_issues_update)
  then have "hashed_text collate (xs[k := b]) \<noteq> hashed_text collate xs"
    by (auto simp: hashed_text_def dest: stringify_inj)
  with n show ?thesis by simp
qed

lemma hashIssues_untracked:
  assumes "k < length xs" and "normalize b = normalize (xs ! k)"
  shows "hashIssues collate sha256 (xs[k := b]) = hashIssues collate sha256 xs"
proof -
  have "map normalize (xs[k := b]) = (map normalize xs)[k := normalize b]"
    by (simp add: map_update)
  also have "\<dots> = map normalize xs"
    using assms by (simp add: list_update_same_conv)
  finally show ?thesis by (simp add: hashIssues_def normalized_issues_def)
qed

text \<open>
  Claim C9 (fingerprint sensitivity). Replacing one issue of the list by an issue that
  differs from it in a tracked field (status name, priority, assignee name, project name,
  set of label names, due date) changes the sorted list of normalized issues and the text
  serialized from it, of which the fingerprint is the digest: the normalized
  serializations differ, and the two fingerprints are equal exactly when the digests of
  the two texts are. Changing only the description or the title of an issue, or anything
  else that leaves its normalized form alone, leaves the fingerprint unchanged.
\<close>

theorem fingerprint_sensitive:
  assumes "k < length xs"
  shows "(tracked_differ (xs ! k) b \<longrightarrow>
            normalized_issues collate (xs[k := b]) \<noteq> normalized_issues collate xs \<and>
            hashed_text collate (xs[k := b]) \<noteq> hashed_text collate xs) \<and>
         (hashIssues collate sha256 (xs[k := b]) = hashIssues collate sha256 xs \<longleftrightarrow>
            sha256 (hashed_text collate (xs[k := b])) = sha256 (hashed_text collate xs)) \<and>
         (normalize b = normalize (xs ! k) \<longrightarrow>
            hashIssues collate sha256 (xs[k := b]) = hashIssues collate sha256 xs) \<and>
         hashIssues collate sha256 (xs[k := (xs ! k)\<lparr>i_description := d, i_title := t\<rparr>]) =
           hashIssues collate sha256 xs"
proof (intro conjI impI)
  assume "tracked_differ (xs ! k) b"
  with assms have "normalized_issues collate (xs[k := b]) \<noteq> normalized_issues collate xs \<and>
         hashed_text collate (xs[k := b]) \<noteq> hashed_text collate xs"
    by (rule hashed_text_update)
  then show "normalized_issues collate (xs[k := b]) \<noteq> normalized_issues collate xs"
    and "hashed_text collate (xs[k := b]) \<noteq> hashed_text collate xs"
    by simp_all
next
  show "hashIssues collate sha256 (xs[k := b]) = hashIssues collate sha256 xs \<longleftrightarrow>
            sha256 (hashed_text collate (xs[k := b])) = sha256 (hashed_text collate xs)"
    by (rule hashIssues_eq_iff)
next
  assume "normalize b = normalize (xs ! k)"
  with assms show "hashIssues collate sha256 (xs[k := b]) = hashIssues collate sha256 xs"
    by (rule hashIssues_untracked)
next
  have "normalize ((xs ! k)\<lparr>i_description := d, i_title := t\<rparr>) = normalize (xs ! k)"
    by (simp add: normalize_def)
  with assms show "hashIssues collate sha256 (xs[k := (xs ! k)\<lparr>i_description := d, i_title := t\<rparr>]) =
           hashIssues collate sha256 xs"
    by (rule hashIssues_untracked)
qed

theorem fingerprint_sensitive_witness:
  "tracked_differ ex_issue_b (ex_issue_b\<lparr>i_priority := 1\<rparr>) \<and>
   hashed_text (\<lambda>s. s) [ex_issue_a, ex_issue_b\<lparr>i_priority := 1\<rparr>] \<noteq>
     hashed_text (\<lambda>s. s) [ex_issue_a, ex_issue_b] \<and>
   hashIssues (\<lambda>s. s) ex_sha
       [ex_issue_a, ex_issue_b\<lparr>i_description := Some ''Rewritten'', i_title := ''Write the docs''\<rparr>] =
     hashIssues (\<lambda>s. s) ex_sha [ex_issue_a, ex_issue_b]"
proof -
  have k: "1 < length [ex_issue_a, ex_issue_b]" by simp
  have td: "tracked_differ ([ex_issue_a, ex_issue_b] ! 1) (ex_issue_b\<lparr>i_priority := 1\<rparr>)"
    by (simp add: tracked_differ_def ex_issue_b_def)
  note t = fingerprint_sensitive [OF k, where b = "ex_issue_b\<lparr>i_priority := 1\<rparr>"
      and collate = "\<lambda>s. s" and ?sha256.0 = ex_sha and d = "Some ''Rewritten''"
      and t = "''Write the docs''"]
  from t td have a: "hashed_text (\<lambda>s. s) [ex_issue_a, ex_issue_b\<lparr>i_priority := 1\<rparr>] \<noteq>
     hashed_text (\<lambda>s. s) [ex_issue_a, ex_issue_b]"
    by simp
  from t have b: "hashIssues (\<lambda>s. s) ex_sha
       [ex_issue_a, ex_issue_b\<lparr>i_description := Some ''Rewritten'', i_title := ''Write the docs''\<rparr>] =
     hashIssues (\<lambda>s. s) ex_sha [ex_issue_a, ex_issue_b]"
    by simp
  from td a b show ?thesis by simp
qed

end
